theory Spec2Isabelle
  imports
    Complex_Main
    "HOL-Library.Multiset"
    "HOL-Library.Sublist"
    "HOL-Library.Product_Lexorder"
begin

section \<open>The Python built-ins that rankers.py relies on\<close>

text \<open>
  The source is Python 2. Its exceptions are values of \<open>py_error\<close>; a function that
  can raise returns \<open>py_error + 'a\<close> with \<open>Inl\<close> for the exception. Byte strings are
  \<open>string\<close>. Floats are modelled by exact numbers: the occurrence counts
  (\<open>0.0\<close>, then \<open>+= 1.0\<close>) by \<open>nat\<close>, similarities by \<open>real\<close>, and the weights
  by any linear order (so NaN is outside the model).
\<close>

datatype py_error = KeyError | IndexError | ValueError

text \<open>The whitespace of \<open>str.split()\<close> without arguments.\<close>

definition is_space :: "char \<Rightarrow> bool" where
  "is_space c \<longleftrightarrow>
     c = CHR '' '' \<or> c = CHR 0x09 \<or> c = CHR 0x0A \<or> c = CHR 0x0B \<or> c = CHR 0x0C \<or> c = CHR 0x0D"

text \<open>
  \<open>s.split()\<close>: the maximal runs of non-whitespace characters, in order. The first
  argument is the word being read.
\<close>

fun split_from :: "string \<Rightarrow> string \<Rightarrow> string list" where
  "split_from w [] = (if w = [] then [] else [w])"
| "split_from w (c # cs) =
     (if is_space c
      then (if w = [] then split_from [] cs else w # split_from [] cs)
      else split_from (w @ [c]) cs)"

definition py_split :: "string \<Rightarrow> string list" where
  "py_split s = split_from [] s"

text \<open>\<open>s.find(sub)\<close>: the lowest index where \<open>sub\<close> starts, \<open>None\<close> for Python's \<open>-1\<close>.\<close>

definition py_find :: "string \<Rightarrow> string \<Rightarrow> nat option" where
  "py_find s sub = List.find (\<lambda>i. prefix sub (drop i s)) [0..<Suc (length s)]"

text \<open>
  \<open>s.rsplit(sep, 1)[0]\<close>: what precedes the last occurrence of \<open>sep\<close>, the whole of
  \<open>s\<close> when there is none; an empty separator raises ValueError.
\<close>

definition py_rsplit1_head :: "string \<Rightarrow> string \<Rightarrow> py_error + string" where
  "py_rsplit1_head s sep =
     (if sep = [] then Inl ValueError
      else (case List.find (\<lambda>i. prefix sep (drop i s)) (rev [0..<Suc (length s)]) of
              None \<Rightarrow> Inr s
            | Some i \<Rightarrow> Inr (take i s)))"

text \<open>
  \<open>sorted(xs, key=k, reverse=r)\<close>: a stable sort; with \<open>reverse=True\<close> the list is
  reversed, sorted stably and reversed again, so equal keys keep their input order.
\<close>

definition py_sorted :: "('a \<Rightarrow> 'k::linorder) \<Rightarrow> bool \<Rightarrow> 'a list \<Rightarrow> 'a list" where
  "py_sorted k reverse xs = (if reverse then rev (sort_key k (rev xs)) else sort_key k xs)"

text \<open>
  A key function that looks a dictionary up raises KeyError on a missing key; \<open>sorted\<close>
  computes the key of every element before it compares any.
\<close>

definition py_sorted_lookup :: "('a \<Rightarrow> 'k::linorder option) \<Rightarrow> 'a list \<Rightarrow> py_error + 'a list" where
  "py_sorted_lookup k xs =
     (if list_ex (\<lambda>x. k x = None) xs then Inl KeyError
      else Inr (py_sorted (\<lambda>x. the (k x)) False xs))"

section \<open>The collaborators of the ranker\<close>

text \<open>
  The strategy object, as far as rankers.py reads it: whether it is a
  \<open>TopicRankStrategy\<close>, the values of \<open>token_ids()\<close> in iteration order,
  \<open>tag_separator()\<close>, \<open>stemmer().stem\<close> and \<open>context()\<close> (the tagged sentences).
\<close>

record strategy =
  is_TopicRankStrategy :: bool
  token_ids_values :: "string list list"
  tag_separator :: string
  stem :: "string \<Rightarrow> string"
  context_sentences :: "string list"

datatype ORDERING_CRITERIA = POSITION | FREQUENCY | CENTROID

record TextRankRanker =
  textrank_strategy :: strategy
  ordering_criteria :: ORDERING_CRITERIA

text \<open>
  \<open>simple_word_overlap_similarity\<close> is called by \<open>cluster_centroid\<close> but neither
  defined nor imported in rankers.py, so it is a parameter: \<open>sim stem1 stem2\<close> is
  \<open>Some v\<close> when the call returns \<open>v\<close> and \<open>None\<close> when it raises (as every call does
  while the name is unbound).
\<close>

type_synonym similarity = "string \<Rightarrow> string \<Rightarrow> real option"

section \<open>pos_tagged_term_stemming and the untagging loops\<close>

text \<open>
  The loop of lines 29-34, 198-203 and 257-262: each token loses its tag, the word is
  transformed by \<open>f\<close> (the stemmer, or nothing) and appended to the accumulated string,
  after a space when that string is not empty.
\<close>

fun strip_tags_loop :: "(string \<Rightarrow> string) \<Rightarrow> string \<Rightarrow> string list \<Rightarrow> string \<Rightarrow> py_error + string" where
  "strip_tags_loop f sep [] acc = Inr acc"
| "strip_tags_loop f sep (wt # wts) acc =
     (case py_rsplit1_head wt sep of
        Inl e \<Rightarrow> Inl e
      | Inr w \<Rightarrow> strip_tags_loop f sep wts ((if acc \<noteq> [] then acc @ '' '' else acc) @ f w))"

definition pos_tagged_term_stemming :: "string \<Rightarrow> string \<Rightarrow> (string \<Rightarrow> string) \<Rightarrow> py_error + string" where
  "pos_tagged_term_stemming pos_tagged_candidate sep stemmer =
     strip_tags_loop stemmer sep (py_split pos_tagged_candidate) []"

definition untag :: "string \<Rightarrow> string \<Rightarrow> py_error + string" where
  "untag sep term = strip_tags_loop (\<lambda>w. w) sep (py_split term) []"

section \<open>cluster_centroid\<close>

text \<open>The inner loop (lines 62-68): a similarity that raises adds \<open>0.0\<close>.\<close>

fun similarity_loop ::
  "similarity \<Rightarrow> string \<Rightarrow> (string \<Rightarrow> string) \<Rightarrow> string \<Rightarrow> string list \<Rightarrow> real \<Rightarrow> py_error + real" where
  "similarity_loop sim sep stemmer stem1 [] s = Inr s"
| "similarity_loop sim sep stemmer stem1 (term2 # rest) s =
     (case pos_tagged_term_stemming term2 sep stemmer of
        Inl e \<Rightarrow> Inl e
      | Inr stem2 \<Rightarrow>
          similarity_loop sim sep stemmer stem1 rest
            (s + (case sim stem1 stem2 of Some v \<Rightarrow> v | None \<Rightarrow> 0)))"

text \<open>
  The outer loop (lines 58-73) over the remaining members, with the whole cluster at
  hand and the state \<open>(centroid, max_similarity)\<close>.
\<close>

fun centroid_loop ::
  "similarity \<Rightarrow> string \<Rightarrow> (string \<Rightarrow> string) \<Rightarrow> string list \<Rightarrow> string list \<Rightarrow>
   string option \<times> real \<Rightarrow> py_error + string option" where
  "centroid_loop sim sep stemmer cluster [] (centroid, max_similarity) = Inr centroid"
| "centroid_loop sim sep stemmer cluster (term1 # rest) (centroid, max_similarity) =
     (case pos_tagged_term_stemming term1 sep stemmer of
        Inl e \<Rightarrow> Inl e
      | Inr stem1 \<Rightarrow>
          (case similarity_loop sim sep stemmer stem1 cluster 0 of
             Inl e \<Rightarrow> Inl e
           | Inr summed \<Rightarrow>
               (let similarity = summed / real (length cluster) in
                if similarity > max_similarity
                then centroid_loop sim sep stemmer cluster rest (Some term1, similarity)
                else centroid_loop sim sep stemmer cluster rest (centroid, max_similarity))))"

definition cluster_centroid ::
  "similarity \<Rightarrow> string list \<Rightarrow> string \<Rightarrow> (string \<Rightarrow> string) \<Rightarrow> py_error + string option" where
  "cluster_centroid sim cluster sep stemmer =
     centroid_loop sim sep stemmer cluster cluster (None, - 1)"

section \<open>TextRankRanker.cluster_ordering\<close>

text \<open>Lines 238-243: every word of a term gets the tag \<open>fk\<close>.\<close>

fun fake_tag_loop :: "string \<Rightarrow> string list \<Rightarrow> string \<Rightarrow> string" where
  "fake_tag_loop sep [] tagged = tagged"
| "fake_tag_loop sep (w # ws) tagged =
     fake_tag_loop sep ws ((if tagged \<noteq> [] then tagged @ '' '' else tagged) @ w @ sep @ ''fk'')"

definition fake_pos_tagged :: "string \<Rightarrow> string \<Rightarrow> string" where
  "fake_pos_tagged sep term = fake_tag_loop sep (py_split term) []"

text \<open>
  Lines 248-251: the member at the position of the tagged centroid; the last position
  that matches wins, and without a match the centroid stays the empty string.
\<close>

fun centroid_lookup :: "string option \<Rightarrow> (string \<times> string) list \<Rightarrow> string \<Rightarrow> string" where
  "centroid_lookup tagged_centroid [] centroid = centroid"
| "centroid_lookup tagged_centroid ((member, term) # rest) centroid =
     centroid_lookup tagged_centroid rest (if Some term = tagged_centroid then member else centroid)"

text \<open>
  Lines 264-273, for one untagged sentence: the state is \<open>(first_positions, frequency)\<close>.
\<close>

type_synonym positions = "string \<rightharpoonup> nat"

fun term_loop :: "string \<Rightarrow> nat \<Rightarrow> string list \<Rightarrow> positions \<times> positions \<Rightarrow> positions \<times> positions" where
  "term_loop untagged_sentence acc [] (first_positions, frequency) = (first_positions, frequency)"
| "term_loop untagged_sentence acc (term # rest) (first_positions, frequency) =
     (case py_find untagged_sentence term of
        None \<Rightarrow> term_loop untagged_sentence acc rest (first_positions, frequency)
      | Some pos \<Rightarrow>
          (let first_positions' =
                 (if first_positions term = None
                  then first_positions(term \<mapsto> acc + (pos + 1)) else first_positions);
               frequency0 = (if frequency term = None then frequency(term \<mapsto> 0) else frequency);
               frequency' = frequency0(term \<mapsto> the (frequency0 term) + 1)
           in term_loop untagged_sentence acc rest (first_positions', frequency')))"

text \<open>
  Lines 254-275: the loop over the sentences, with the state
  \<open>(sentence_length_accumulator, first_positions, frequency)\<close>.
\<close>

fun sentence_loop ::
  "string \<Rightarrow> string list \<Rightarrow> string list \<Rightarrow> nat \<times> positions \<times> positions \<Rightarrow>
   py_error + nat \<times> positions \<times> positions" where
  "sentence_loop sep cluster [] st = Inr st"
| "sentence_loop sep cluster (sentence # rest) (acc, first_positions, frequency) =
     (case untag sep sentence of
        Inl e \<Rightarrow> Inl e
      | Inr untagged_sentence \<Rightarrow>
          (case term_loop untagged_sentence acc cluster (first_positions, frequency) of
             (first_positions', frequency') \<Rightarrow>
               sentence_loop sep cluster rest
                 (acc + length untagged_sentence, first_positions', frequency')))"

definition position_frequency ::
  "string \<Rightarrow> string list \<Rightarrow> string list \<Rightarrow> py_error + nat \<times> positions \<times> positions" where
  "position_frequency sep text cluster = sentence_loop sep cluster text (0, Map.empty, Map.empty)"

text \<open>The three sort keys of lines 278-286.\<close>

definition word_count :: "string \<Rightarrow> int" where
  "word_count t = int (length (py_split t))"

definition position_key :: "positions \<Rightarrow> string \<Rightarrow> (nat \<times> int) option" where
  "position_key first_positions t =
     (case first_positions t of None \<Rightarrow> None | Some p \<Rightarrow> Some (p, - 1 * word_count t))"

definition frequency_key :: "positions \<Rightarrow> string \<Rightarrow> (nat \<times> int) option" where
  "frequency_key frequency t =
     (case frequency t of None \<Rightarrow> None | Some n \<Rightarrow> Some (n, - 1 * word_count t))"

definition centroid_key :: "string \<Rightarrow> string \<Rightarrow> bool \<times> int" where
  "centroid_key centroid t = (t \<noteq> centroid, - 1 * word_count t)"

definition cluster_ordering :: "similarity \<Rightarrow> TextRankRanker \<Rightarrow> string list \<Rightarrow> py_error + string list" where
  "cluster_ordering sim self cluster =
     (let text = context_sentences (textrank_strategy self);
          sep = tag_separator (textrank_strategy self);
          fake_pos_tagged_cluster = map (fake_pos_tagged sep) cluster
      in case cluster_centroid sim fake_pos_tagged_cluster sep (stem (textrank_strategy self)) of
           Inl e \<Rightarrow> Inl e
         | Inr tagged_centroid \<Rightarrow>
             (let centroid = centroid_lookup tagged_centroid (zip cluster fake_pos_tagged_cluster) []
              in case position_frequency sep text cluster of
                   Inl e \<Rightarrow> Inl e
                 | Inr (acc, first_positions, frequency) \<Rightarrow>
                     (if ordering_criteria self = POSITION
                      then py_sorted_lookup (position_key first_positions) cluster
                      else if ordering_criteria self = FREQUENCY
                      then py_sorted_lookup (frequency_key frequency) cluster
                      else Inr (py_sorted (centroid_key centroid) False cluster))))"

section \<open>TextRankRanker.ordering\<close>

text \<open>Lines 193-205: the members of a cluster without their tags.\<close>

fun untag_cluster :: "string \<Rightarrow> string list \<Rightarrow> py_error + string list" where
  "untag_cluster sep [] = Inr []"
| "untag_cluster sep (term # rest) =
     (case untag sep term of
        Inl e \<Rightarrow> Inl e
      | Inr untagged_term \<Rightarrow>
          (case untag_cluster sep rest of
             Inl e \<Rightarrow> Inl e
           | Inr untagged_rest \<Rightarrow> Inr (untagged_term # untagged_rest)))"

text \<open>
  Lines 191-212. The weights are the dictionary's items in iteration order (keys
  distinct); \<open>weights[k]\<close> is \<open>map_of weights k\<close>. An empty cluster raises IndexError at
  \<open>untagged_cluster[0]\<close>.
\<close>

fun cluster_loop ::
  "similarity \<Rightarrow> TextRankRanker \<Rightarrow> (string \<times> 'w) list \<Rightarrow> string list list \<Rightarrow>
   (string \<times> 'w) list \<Rightarrow> py_error + (string \<times> 'w) list" where
  "cluster_loop sim self weights [] ordered_terms = Inr ordered_terms"
| "cluster_loop sim self weights (cluster # rest) ordered_terms =
     (case untag_cluster (tag_separator (textrank_strategy self)) cluster of
        Inl e \<Rightarrow> Inl e
      | Inr untagged_cluster \<Rightarrow>
          (case cluster_ordering sim self untagged_cluster of
             Inl e \<Rightarrow> Inl e
           | Inr untagged_cluster' \<Rightarrow>
               (case untagged_cluster' of
                  [] \<Rightarrow> Inl IndexError
                | cluster_keyphrase # _ \<Rightarrow>
                    (case map_of weights cluster_keyphrase of
                       None \<Rightarrow> Inl KeyError
                     | Some cluster_score \<Rightarrow>
                         cluster_loop sim self weights rest
                           (ordered_terms @ [(cluster_keyphrase, cluster_score)])))))"

definition ordering ::
  "similarity \<Rightarrow> TextRankRanker \<Rightarrow> (string \<times> 'w::linorder) list \<Rightarrow> string list list \<Rightarrow>
   py_error + (string \<times> 'w) list" where
  "ordering sim self weights clusters =
     (if \<not> is_TopicRankStrategy (textrank_strategy self)
      then Inr (py_sorted snd True weights)
      else (let clusters = token_ids_values (textrank_strategy self)
            in case cluster_loop sim self weights clusters [] of
                 Inl e \<Rightarrow> Inl e
               | Inr ordered_terms \<Rightarrow> Inr (py_sorted snd True ordered_terms)))"


section \<open>What the analysis recorded\<close>

text \<open>
  The entries of \<open>first_positions\<close> and \<open>frequency\<close> after the loop of lines 254-275,
  read for one phrase; \<open>None\<close> when the phrase has no entry (or the loop raised).
\<close>

definition first_positions_of :: "string \<Rightarrow> string list \<Rightarrow> string list \<Rightarrow> string \<Rightarrow> nat option" where
  "first_positions_of sep sentences cluster t =
     (case position_frequency sep sentences cluster of
        Inl e \<Rightarrow> None
      | Inr (acc, first_positions, frequency) \<Rightarrow> first_positions t)"

definition frequency_of :: "string \<Rightarrow> string list \<Rightarrow> string list \<Rightarrow> string \<Rightarrow> nat option" where
  "frequency_of sep sentences cluster t =
     (case position_frequency sep sentences cluster of
        Inl e \<Rightarrow> None
      | Inr (acc, first_positions, frequency) \<Rightarrow> frequency t)"

section \<open>The quantities the claims speak of\<close>

text \<open>
  Section 4.2 of the spec: a failed similarity computation contributes 0, and a
  member's average similarity is the sum of its similarities to every member (itself
  included) divided by the size of the cluster. The stemmed form of a member is the
  string that \<open>pos_tagged_term_stemming\<close> returns.
\<close>

definition similarity_or_zero :: "similarity \<Rightarrow> string \<Rightarrow> string \<Rightarrow> real" where
  "similarity_or_zero sim stem1 stem2 = (case sim stem1 stem2 of None \<Rightarrow> 0 | Some v \<Rightarrow> v)"

definition stemmed :: "string \<Rightarrow> (string \<Rightarrow> string) \<Rightarrow> string \<Rightarrow> string" where
  "stemmed sep stemmer m =
     (case pos_tagged_term_stemming m sep stemmer of Inl e \<Rightarrow> [] | Inr s \<Rightarrow> s)"

definition average_similarity ::
  "similarity \<Rightarrow> string \<Rightarrow> (string \<Rightarrow> string) \<Rightarrow> string list \<Rightarrow> string \<Rightarrow> real" where
  "average_similarity sim sep stemmer cluster m =
     sum_list (map (\<lambda>m'. similarity_or_zero sim (stemmed sep stemmer m) (stemmed sep stemmer m')) cluster)
       / real (length cluster)"

text \<open>
  Section 4.3 of the spec: the first-occurrence offset of a phrase in a sequence of
  untagged sentences is the accumulated length of the sentences before the first one
  that contains it, plus the match index plus one; the occurrence count is taken over
  the sentences that contain the phrase.
\<close>

fun first_match_offset :: "nat \<Rightarrow> string list \<Rightarrow> string \<Rightarrow> nat option" where
  "first_match_offset acc [] t = None"
| "first_match_offset acc (u # us) t =
     (case py_find u t of
        Some match_index \<Rightarrow> Some (acc + (match_index + 1))
      | None \<Rightarrow> first_match_offset (acc + length u) us t)"

definition matching_sentences :: "string list \<Rightarrow> string \<Rightarrow> nat" where
  "matching_sentences us t = length (filter (\<lambda>u. py_find u t \<noteq> None) us)"

text \<open>
  The numbers that the sort keys of \<open>cluster_ordering\<close> read for a member of the cluster
  it was called with; meaningful where the entry exists (elsewhere the key raises).
\<close>

definition first_occurrence_offset :: "TextRankRanker \<Rightarrow> string list \<Rightarrow> string \<Rightarrow> nat" where
  "first_occurrence_offset self cluster t =
     the (first_positions_of (tag_separator (textrank_strategy self))
            (context_sentences (textrank_strategy self)) cluster t)"

definition occurrence_count :: "TextRankRanker \<Rightarrow> string list \<Rightarrow> string \<Rightarrow> nat" where
  "occurrence_count self cluster t =
     the (frequency_of (tag_separator (textrank_strategy self))
            (context_sentences (textrank_strategy self)) cluster t)"

section \<open>Example documents\<close>

text \<open>
  A document of three sentences, \<open>a b\<close>, \<open>a c\<close> and \<open>a\<close>, tagged with the separator
  \<open>/\<close>; the strategy groups \<open>a\<close> with \<open>b\<close>, and \<open>c\<close> alone. The phrase \<open>a\<close> occurs in
  three sentences, \<open>b\<close> in one.
\<close>

definition abc_strategy :: "bool \<Rightarrow> strategy" where
  "abc_strategy topic =
     \<lparr> is_TopicRankStrategy = topic,
       token_ids_values = [[''a/x'', ''b/y''], [''c/z'']],
       tag_separator = ''/'',
       stem = (\<lambda>w. w),
       context_sentences = [''a/x b/y'', ''a/x c/z'', ''a/x''] \<rparr>"

definition abc_ranker :: "bool \<Rightarrow> ORDERING_CRITERIA \<Rightarrow> TextRankRanker" where
  "abc_ranker topic criterion =
     \<lparr> textrank_strategy = abc_strategy topic, ordering_criteria = criterion \<rparr>"

definition abc_weights :: "(string \<times> real) list" where
  "abc_weights = [(''a'', 1 / 4), (''b'', 1 / 2), (''c'', 1 / 2), (''d'', 3 / 4)]"

text \<open>The similarity as rankers.py finds it: the name is unbound and every call raises.\<close>

definition unbound_similarity :: similarity where
  "unbound_similarity stem1 stem2 = None"

text \<open>An overlap similarity for the examples: the number of words two stems share.\<close>

definition shared_words :: similarity where
  "shared_words stem1 stem2 =
     Some (real (length (filter (\<lambda>w. w \<in> set (py_split stem2)) (remdups (py_split stem1)))))"

text \<open>
  The document of the spec's scenario: \<open>the cat sat\<close> and \<open>the dog ran\<close>. The
  phrases \<open>the\<close> and \<open>the cat\<close> share a cluster and first occur at the same offset.
\<close>

definition cat_strategy :: strategy where
  "cat_strategy =
     \<lparr> is_TopicRankStrategy = True,
       token_ids_values = [[''the/DT'', ''the/DT cat/NN''], [''dog/NN'']],
       tag_separator = ''/'',
       stem = (\<lambda>w. w),
       context_sentences = [''the/DT cat/NN sat/VB'', ''the/DT dog/NN ran/VB''] \<rparr>"

definition cat_ranker :: "ORDERING_CRITERIA \<Rightarrow> TextRankRanker" where
  "cat_ranker criterion = \<lparr> textrank_strategy = cat_strategy, ordering_criteria = criterion \<rparr>"

text \<open>
  A similarity that raises on a degenerate (empty) phrase and counts shared words
  otherwise.
\<close>

definition partial_shared_words :: similarity where
  "partial_shared_words stem1 stem2 =
     (if py_split stem1 = [] \<or> py_split stem2 = [] then None else shared_words stem1 stem2)"

section \<open>Sorting, and where the loops can raise\<close>

lemma mset_py_sorted: "mset (py_sorted k r xs) = mset xs"
  by (simp add: py_sorted_def)

lemma length_py_sorted: "length (py_sorted k r xs) = length xs"
  by (simp add: py_sorted_def)

lemma set_py_sorted: "set (py_sorted k r xs) = set xs"
  by (simp add: py_sorted_def)

lemma py_sorted_ascending: "sorted (map k (py_sorted k False xs))"
  by (simp add: py_sorted_def)

lemma py_sorted_descending: "sorted (rev (map k (py_sorted k True xs)))"
  by (simp add: py_sorted_def rev_map)

lemma py_sorted_lookup_Inr:
  assumes "py_sorted_lookup k xs = Inr ys"
  shows "ys = py_sorted (\<lambda>x. the (k x)) False xs" and "\<forall>x\<in>set xs. k x \<noteq> None"
  using assms by (auto simp: py_sorted_lookup_def list_ex_iff split: if_splits)

lemma py_sorted_lookup_total:
  assumes "\<forall>x\<in>set xs. k x \<noteq> None"
  shows "py_sorted_lookup k xs = Inr (py_sorted (\<lambda>x. the (k x)) False xs)"
  using assms by (auto simp: py_sorted_lookup_def list_ex_iff)

lemma py_sorted_lookup_KeyError:
  assumes "x \<in> set xs" and "k x = None"
  shows "py_sorted_lookup k xs = Inl KeyError"
  using assms by (auto simp: py_sorted_lookup_def list_ex_iff)

lemma py_rsplit1_head_cases:
  "py_rsplit1_head s sep = Inl e \<longleftrightarrow> sep = [] \<and> e = ValueError"
  by (auto simp: py_rsplit1_head_def split: option.splits)

lemma strip_tags_loop_empty_sep:
  "strip_tags_loop f [] ws acc = (if ws = [] then Inr acc else Inl ValueError)"
  by (cases ws) (simp_all add: py_rsplit1_head_def)

lemma strip_tags_loop_total:
  "sep \<noteq> [] \<Longrightarrow> \<exists>r. strip_tags_loop f sep ws acc = Inr r"
proof (induction ws arbitrary: acc)
  case Nil
  then show ?case by simp
next
  case (Cons wt ws)
  obtain w where "py_rsplit1_head wt sep = Inr w"
    using Cons.prems py_rsplit1_head_cases [of wt sep] by (cases "py_rsplit1_head wt sep") auto
  then show ?case using Cons.IH [OF Cons.prems] by simp
qed

lemma strip_tags_loop_error:
  "(\<exists>e. strip_tags_loop f sep ws acc = Inl e) \<longleftrightarrow> sep = [] \<and> ws \<noteq> []"
proof (cases "sep = []")
  case True
  then show ?thesis by (simp add: strip_tags_loop_empty_sep)
next
  case False
  then show ?thesis using strip_tags_loop_total [of sep f ws acc] by auto
qed

lemma strip_tags_loop_ValueError:
  "strip_tags_loop f sep ws acc = Inl e \<Longrightarrow> e = ValueError"
proof (induction ws arbitrary: acc)
  case Nil
  then show ?case by simp
next
  case (Cons wt ws)
  then show ?case
    by (cases "py_rsplit1_head wt sep") (auto simp: py_rsplit1_head_cases)
qed

lemma stemming_error:
  "(\<exists>e. pos_tagged_term_stemming t sep st = Inl e) \<longleftrightarrow> sep = [] \<and> py_split t \<noteq> []"
  unfolding pos_tagged_term_stemming_def by (rule strip_tags_loop_error)

lemma untag_error:
  "(\<exists>e. untag sep t = Inl e) \<longleftrightarrow> sep = [] \<and> py_split t \<noteq> []"
  unfolding untag_def by (rule strip_tags_loop_error)

lemma untag_total: "sep \<noteq> [] \<Longrightarrow> \<exists>u. untag sep t = Inr u"
  using untag_error [of sep t] by (cases "untag sep t") auto

lemma stemming_total: "sep \<noteq> [] \<Longrightarrow> \<exists>u. pos_tagged_term_stemming t sep st = Inr u"
  using stemming_error [of t sep st] by (cases "pos_tagged_term_stemming t sep st") auto

lemma similarity_loop_total:
  "sep \<noteq> [] \<Longrightarrow> \<exists>r. similarity_loop sim sep st stem1 ts s = Inr r"
proof (induction ts arbitrary: s)
  case Nil
  then show ?case by simp
next
  case (Cons t ts)
  obtain u where "pos_tagged_term_stemming t sep st = Inr u"
    using stemming_total [OF Cons.prems] by blast
  then show ?case using Cons.IH [OF Cons.prems] by simp
qed

lemma centroid_loop_total:
  "sep \<noteq> [] \<Longrightarrow> \<exists>r. centroid_loop sim sep st cluster ts (c, m) = Inr r"
proof (induction ts arbitrary: c m)
  case Nil
  then show ?case by simp
next
  case (Cons t ts)
  obtain u where u: "pos_tagged_term_stemming t sep st = Inr u"
    using stemming_total [OF Cons.prems] by blast
  obtain r where r: "similarity_loop sim sep st u cluster 0 = Inr r"
    using similarity_loop_total [OF Cons.prems] by blast
  show ?case using u r Cons.IH [OF Cons.prems] by (simp add: Let_def)
qed

lemma cluster_centroid_total:
  "sep \<noteq> [] \<Longrightarrow> \<exists>r. cluster_centroid sim cluster sep st = Inr r"
  unfolding cluster_centroid_def by (rule centroid_loop_total)

lemma sentence_loop_total:
  "sep \<noteq> [] \<Longrightarrow> \<exists>r. sentence_loop sep cluster sentences (acc, fp, fr) = Inr r"
proof (induction sentences arbitrary: acc fp fr)
  case Nil
  then show ?case by simp
next
  case (Cons s sentences)
  obtain u where u: "untag sep s = Inr u"
    using untag_total [OF Cons.prems] by blast
  obtain fp' fr' where t: "term_loop u acc cluster (fp, fr) = (fp', fr')"
    by (cases "term_loop u acc cluster (fp, fr)")
  show ?case using u t Cons.IH [OF Cons.prems] by simp
qed

lemma position_frequency_total:
  "sep \<noteq> [] \<Longrightarrow> \<exists>acc fp fr. position_frequency sep sentences cluster = Inr (acc, fp, fr)"
  unfolding position_frequency_def
  using sentence_loop_total [of sep cluster sentences 0 Map.empty Map.empty]
  by (metis prod_cases3)

lemma cluster_ordering_mset:
  assumes "cluster_ordering sim self cluster = Inr out"
  shows "mset out = mset cluster"
  using assms
  by (auto simp: cluster_ordering_def Let_def mset_py_sorted
      dest!: py_sorted_lookup_Inr(1) split: sum.splits if_splits)

lemma py_sorted_lookup_sorted:
  assumes "py_sorted_lookup k xs = Inr ys"
  shows "sorted (map (\<lambda>x. the (k x)) ys)"
  using py_sorted_lookup_Inr(1) [OF assms] py_sorted_ascending [of "\<lambda>x. the (k x)" xs] by simp

lemma sorted_pair_key_nth:
  fixes f :: "'a \<Rightarrow> 'b::linorder" and g :: "'a \<Rightarrow> 'c::linorder"
  assumes "sorted (map (\<lambda>t. (f t, g t)) out)" and "i < j" and "j < length out"
  shows "f (out ! i) \<le> f (out ! j) \<and> (f (out ! i) = f (out ! j) \<longrightarrow> g (out ! i) \<le> g (out ! j))"
proof -
  have "map (\<lambda>t. (f t, g t)) out ! i \<le> map (\<lambda>t. (f t, g t)) out ! j"
    using assms by (intro sorted_nth_mono) simp_all
  then show ?thesis using assms by auto
qed

lemma cluster_ordering_cases:
  assumes "cluster_ordering sim self cluster = r"
  obtains (centroid_raises) e where
      "cluster_centroid sim (map (fake_pos_tagged (tag_separator (textrank_strategy self))) cluster)
         (tag_separator (textrank_strategy self)) (stem (textrank_strategy self)) = Inl e"
      "r = Inl e"
  | (analysis_raises) tc e where
      "cluster_centroid sim (map (fake_pos_tagged (tag_separator (textrank_strategy self))) cluster)
         (tag_separator (textrank_strategy self)) (stem (textrank_strategy self)) = Inr tc"
      "position_frequency (tag_separator (textrank_strategy self))
         (context_sentences (textrank_strategy self)) cluster = Inl e"
      "r = Inl e"
  | (sorts) tc acc fp fr where
      "cluster_centroid sim (map (fake_pos_tagged (tag_separator (textrank_strategy self))) cluster)
         (tag_separator (textrank_strategy self)) (stem (textrank_strategy self)) = Inr tc"
      "position_frequency (tag_separator (textrank_strategy self))
         (context_sentences (textrank_strategy self)) cluster = Inr (acc, fp, fr)"
      "r = (if ordering_criteria self = POSITION then py_sorted_lookup (position_key fp) cluster
            else if ordering_criteria self = FREQUENCY then py_sorted_lookup (frequency_key fr) cluster
            else Inr (py_sorted (centroid_key (centroid_lookup tc
                   (zip cluster (map (fake_pos_tagged (tag_separator (textrank_strategy self))) cluster)) []))
                   False cluster))"
proof (cases "cluster_centroid sim (map (fake_pos_tagged (tag_separator (textrank_strategy self))) cluster)
         (tag_separator (textrank_strategy self)) (stem (textrank_strategy self))")
  case (Inl e)
  with assms centroid_raises show ?thesis
    by (simp add: cluster_ordering_def)
next
  case tc: (Inr tc)
  show ?thesis
  proof (cases "position_frequency (tag_separator (textrank_strategy self))
         (context_sentences (textrank_strategy self)) cluster")
    case (Inl e)
    with tc assms analysis_raises show ?thesis
      by (simp add: cluster_ordering_def)
  next
    case (Inr st)
    obtain acc fp fr where "st = (acc, fp, fr)"
      by (cases st)
    with Inr tc assms sorts [of tc acc fp fr] show ?thesis
      by (simp add: cluster_ordering_def)
  qed
qed

lemma position_key_the:
  "first_positions t \<noteq> None \<Longrightarrow>
   the (position_key first_positions t) = (the (first_positions t), - word_count t)"
  by (auto simp: position_key_def)

lemma frequency_key_the:
  "frequency t \<noteq> None \<Longrightarrow>
   the (frequency_key frequency t) = (the (frequency t), - word_count t)"
  by (auto simp: frequency_key_def)

lemma position_key_None: "position_key first_positions t = None \<longleftrightarrow> first_positions t = None"
  by (simp add: position_key_def split: option.splits)

lemma frequency_key_None: "frequency_key frequency t = None \<longleftrightarrow> frequency t = None"
  by (simp add: frequency_key_def split: option.splits)

lemma cluster_ordering_POSITION:
  assumes "ordering_criteria self = POSITION"
    and "cluster_ordering sim self cluster = Inr out"
  shows "\<forall>t\<in>set cluster. first_positions_of (tag_separator (textrank_strategy self))
           (context_sentences (textrank_strategy self)) cluster t \<noteq> None"
    and "sorted (map (\<lambda>t. (the (first_positions_of (tag_separator (textrank_strategy self))
           (context_sentences (textrank_strategy self)) cluster t), - word_count t)) out)"
proof -
  from assms(2) obtain tc acc fp fr where
    pf: "position_frequency (tag_separator (textrank_strategy self))
           (context_sentences (textrank_strategy self)) cluster = Inr (acc, fp, fr)"
    and out: "py_sorted_lookup (position_key fp) cluster = Inr out"
    by (cases rule: cluster_ordering_cases) (simp_all add: assms(1))
  have fp: "first_positions_of (tag_separator (textrank_strategy self))
           (context_sentences (textrank_strategy self)) cluster = fp"
    by (rule ext) (simp add: first_positions_of_def pf)
  have some: "\<forall>t\<in>set cluster. fp t \<noteq> None"
    using py_sorted_lookup_Inr(2) [OF out] by (simp add: position_key_None)
  then show "\<forall>t\<in>set cluster. first_positions_of (tag_separator (textrank_strategy self))
           (context_sentences (textrank_strategy self)) cluster t \<noteq> None"
    by (simp add: fp)
  have "set out = set cluster"
    using py_sorted_lookup_Inr(1) [OF out] by (simp add: set_py_sorted)
  then have "map (\<lambda>t. the (position_key fp t)) out = map (\<lambda>t. (the (fp t), - word_count t)) out"
    using some by (intro map_cong) (simp_all add: position_key_the)
  with py_sorted_lookup_sorted [OF out]
  have "sorted (map (\<lambda>t. (the (fp t), - word_count t)) out)"
    by (simp only:)
  then show "sorted (map (\<lambda>t. (the (first_positions_of (tag_separator (textrank_strategy self))
           (context_sentences (textrank_strategy self)) cluster t), - word_count t)) out)"
    by (simp only: fp)
qed

lemma cluster_ordering_FREQUENCY:
  assumes "ordering_criteria self = FREQUENCY"
    and "cluster_ordering sim self cluster = Inr out"
  shows "\<forall>t\<in>set cluster. frequency_of (tag_separator (textrank_strategy self))
           (context_sentences (textrank_strategy self)) cluster t \<noteq> None"
    and "sorted (map (\<lambda>t. (the (frequency_of (tag_separator (textrank_strategy self))
           (context_sentences (textrank_strategy self)) cluster t), - word_count t)) out)"
proof -
  from assms(2) obtain tc acc fp fr where
    pf: "position_frequency (tag_separator (textrank_strategy self))
           (context_sentences (textrank_strategy self)) cluster = Inr (acc, fp, fr)"
    and out: "py_sorted_lookup (frequency_key fr) cluster = Inr out"
    by (cases rule: cluster_ordering_cases) (simp_all add: assms(1))
  have fr: "frequency_of (tag_separator (textrank_strategy self))
           (context_sentences (textrank_strategy self)) cluster = fr"
    by (rule ext) (simp add: frequency_of_def pf)
  have some: "\<forall>t\<in>set cluster. fr t \<noteq> None"
    using py_sorted_lookup_Inr(2) [OF out] by (simp add: frequency_key_None)
  then show "\<forall>t\<in>set cluster. frequency_of (tag_separator (textrank_strategy self))
           (context_sentences (textrank_strategy self)) cluster t \<noteq> None"
    by (simp add: fr)
  have "set out = set cluster"
    using py_sorted_lookup_Inr(1) [OF out] by (simp add: set_py_sorted)
  then have "map (\<lambda>t. the (frequency_key fr t)) out = map (\<lambda>t. (the (fr t), - word_count t)) out"
    using some by (intro map_cong) (simp_all add: frequency_key_the)
  with py_sorted_lookup_sorted [OF out]
  have "sorted (map (\<lambda>t. (the (fr t), - word_count t)) out)"
    by (simp only:)
  then show "sorted (map (\<lambda>t. (the (frequency_of (tag_separator (textrank_strategy self))
           (context_sentences (textrank_strategy self)) cluster t), - word_count t)) out)"
    by (simp only: fr)
qed

lemma cluster_ordering_nonempty:
  assumes "cluster_ordering sim self cluster = Inr out" and "cluster \<noteq> []"
  shows "out \<noteq> []"
  using cluster_ordering_mset [OF assms(1)] assms(2) by auto

lemma sorted_pair_key_hd:
  fixes f :: "'a \<Rightarrow> 'b::linorder" and g :: "'a \<Rightarrow> 'c::linorder"
  assumes "sorted (map (\<lambda>t. (f t, g t)) out)" and "t \<in> set out"
  shows "f (hd out) \<le> f t"
proof -
  obtain j where j: "j < length out" "out ! j = t"
    using assms(2) by (auto simp: in_set_conv_nth)
  have "out \<noteq> []" using assms(2) by auto
  then have hd: "hd out = out ! 0" by (simp add: hd_conv_nth)
  show ?thesis
  proof (cases "j = 0")
    case True
    with j hd show ?thesis by simp
  next
    case False
    with sorted_pair_key_nth [OF assms(1), of 0 j] j hd show ?thesis by simp
  qed
qed

lemma untag_cluster_Inr:
  "untag_cluster sep cluster = Inr untagged \<Longrightarrow>
   length untagged = length cluster \<and> (\<forall>i<length cluster. untag sep (cluster ! i) = Inr (untagged ! i))"
proof (induction cluster arbitrary: untagged)
  case Nil
  then show ?case by simp
next
  case (Cons t cluster)
  then obtain u us where u: "untag sep t = Inr u" and us: "untag_cluster sep cluster = Inr us"
    and eq: "untagged = u # us"
    by (auto split: sum.splits)
  from Cons.IH [OF us] u eq show ?case
    by (auto simp: nth_Cons split: nat.splits)
qed

lemma untag_cluster_member:
  assumes "untag_cluster sep cluster = Inr untagged" and "p \<in> set untagged"
  shows "\<exists>m\<in>set cluster. untag sep m = Inr p"
proof -
  obtain i where "i < length untagged" "untagged ! i = p"
    using assms(2) by (auto simp: in_set_conv_nth)
  with untag_cluster_Inr [OF assms(1)] show ?thesis
    by (metis nth_mem)
qed

lemma cluster_loop_Inr:
  "cluster_loop sim self weights clusters acc = Inr res \<Longrightarrow>
   \<exists>reps. res = acc @ reps \<and> length reps = length clusters
     \<and> (\<forall>i<length clusters.
          (\<exists>m\<in>set (clusters ! i). untag (tag_separator (textrank_strategy self)) m = Inr (fst (reps ! i)))
          \<and> map_of weights (fst (reps ! i)) = Some (snd (reps ! i)))"
proof (induction clusters arbitrary: acc)
  case Nil
  then show ?case by simp
next
  case (Cons cluster clusters)
  from Cons.prems obtain untagged kp others score where
    u: "untag_cluster (tag_separator (textrank_strategy self)) cluster = Inr untagged"
    and o: "cluster_ordering sim self untagged = Inr (kp # others)"
    and w: "map_of weights kp = Some score"
    and rest: "cluster_loop sim self weights clusters (acc @ [(kp, score)]) = Inr res"
    by (auto split: sum.splits list.splits option.splits)
  have "kp \<in> set untagged"
    using cluster_ordering_mset [OF o] by (metis list.set_intros(1) set_mset_mset)
  then obtain m where m: "m \<in> set cluster" "untag (tag_separator (textrank_strategy self)) m = Inr kp"
    using untag_cluster_member [OF u] by blast
  from Cons.IH [OF rest] obtain reps where reps: "res = (acc @ [(kp, score)]) @ reps"
    "length reps = length clusters"
    "\<forall>i<length clusters.
          (\<exists>m\<in>set (clusters ! i). untag (tag_separator (textrank_strategy self)) m = Inr (fst (reps ! i)))
          \<and> map_of weights (fst (reps ! i)) = Some (snd (reps ! i))"
    by blast
  show ?case
  proof (intro exI conjI)
    show "res = acc @ ((kp, score) # reps)" using reps(1) by simp
    show "length ((kp, score) # reps) = length (cluster # clusters)" using reps(2) by simp
    show "\<forall>i<length (cluster # clusters).
       (\<exists>m\<in>set ((cluster # clusters) ! i).
           untag (tag_separator (textrank_strategy self)) m = Inr (fst (((kp, score) # reps) ! i)))
       \<and> map_of weights (fst (((kp, score) # reps) ! i)) = Some (snd (((kp, score) # reps) ! i))"
      using m w reps(3) by (auto simp: nth_Cons split: nat.splits)
  qed
qed

lemma stemmed_Inr: "pos_tagged_term_stemming m sep st = Inr s \<Longrightarrow> stemmed sep st m = s"
  by (simp add: stemmed_def)

lemma similarity_loop_sum:
  assumes "\<forall>t\<in>set ts. \<exists>u. pos_tagged_term_stemming t sep st = Inr u"
  shows "similarity_loop sim sep st stem1 ts s =
           Inr (s + sum_list (map (\<lambda>t. similarity_or_zero sim stem1 (stemmed sep st t)) ts))"
  using assms
proof (induction ts arbitrary: s)
  case Nil
  then show ?case by simp
next
  case (Cons t ts)
  then obtain u where u: "pos_tagged_term_stemming t sep st = Inr u"
    by auto
  have "similarity_loop sim sep st stem1 (t # ts) s =
          similarity_loop sim sep st stem1 ts (s + similarity_or_zero sim stem1 u)"
    by (simp add: u similarity_or_zero_def split: option.splits)
  also have "\<dots> = Inr (s + similarity_or_zero sim stem1 u
                 + sum_list (map (\<lambda>t. similarity_or_zero sim stem1 (stemmed sep st t)) ts))"
    using Cons by simp
  finally show ?case by (simp add: stemmed_Inr [OF u] add.assoc)
qed

lemma similarity_loop_raises:
  assumes "t \<in> set ts" and "pos_tagged_term_stemming t sep st = Inl e"
  shows "\<exists>e'. similarity_loop sim sep st stem1 ts s = Inl e'"
  using assms
proof (induction ts arbitrary: s)
  case Nil
  then show ?case by simp
next
  case (Cons x ts)
  show ?case
  proof (cases "pos_tagged_term_stemming x sep st")
    case (Inl a)
    then show ?thesis by simp
  next
    case (Inr u)
    with Cons.prems have "t \<in> set ts" by auto
    from Cons.IH [OF this Cons.prems(2)] Inr show ?thesis by simp
  qed
qed

lemma similarity_loop_zero_for_failure:
  "similarity_loop sim sep st stem1 ts s =
   similarity_loop (\<lambda>a b. Some (similarity_or_zero sim a b)) sep st stem1 ts s"
proof (induction ts arbitrary: s)
  case Nil
  then show ?case by simp
next
  case (Cons t ts)
  then show ?case
    by (cases "pos_tagged_term_stemming t sep st")
      (simp_all add: similarity_or_zero_def split: option.splits)
qed

lemma centroid_loop_zero_for_failure:
  "centroid_loop sim sep st cluster ts (c, mx) =
   centroid_loop (\<lambda>a b. Some (similarity_or_zero sim a b)) sep st cluster ts (c, mx)"
proof (induction ts arbitrary: c mx)
  case Nil
  then show ?case by simp
next
  case (Cons t ts)
  show ?case
  proof (cases "pos_tagged_term_stemming t sep st")
    case (Inl a)
    then show ?thesis by simp
  next
    case (Inr u)
    have eq: "similarity_loop (\<lambda>a b. Some (similarity_or_zero sim a b)) sep st u cluster 0 =
        similarity_loop sim sep st u cluster 0"
      by (rule similarity_loop_zero_for_failure [symmetric])
    show ?thesis
    proof (cases "similarity_loop sim sep st u cluster 0")
      case (Inl a)
      with Inr eq show ?thesis by simp
    next
      case r: (Inr r)
      with Inr eq Cons.IH show ?thesis by (simp add: Let_def)
    qed
  qed
qed

lemma centroid_loop_step:
  assumes "pos_tagged_term_stemming t sep st = Inr u"
    and "\<forall>m\<in>set cluster. \<exists>u. pos_tagged_term_stemming m sep st = Inr u"
  shows "centroid_loop sim sep st cluster (t # ts) (c, mx) =
           (if average_similarity sim sep st cluster t > mx
            then centroid_loop sim sep st cluster ts (Some t, average_similarity sim sep st cluster t)
            else centroid_loop sim sep st cluster ts (c, mx))"
  using assms(1) similarity_loop_sum [OF assms(2), of sim u 0]
  by (simp add: Let_def average_similarity_def stemmed_Inr [OF assms(1)])

lemma centroid_loop_ok:
  assumes "\<forall>m\<in>set cluster. \<exists>u. pos_tagged_term_stemming m sep st = Inr u"
    and "\<forall>m\<in>set ts. \<exists>u. pos_tagged_term_stemming m sep st = Inr u"
  shows "\<exists>r. centroid_loop sim sep st cluster ts (c, mx) = Inr r"
  using assms(2)
proof (induction ts arbitrary: c mx)
  case Nil
  then show ?case by simp
next
  case (Cons t ts)
  then obtain u where u: "pos_tagged_term_stemming t sep st = Inr u"
    by auto
  show ?case
    unfolding centroid_loop_step [OF u assms(1)] using Cons by auto
qed

lemma cluster_centroid_raises_iff:
  "(\<exists>e. cluster_centroid sim cluster sep st = Inl e) \<longleftrightarrow>
   sep = [] \<and> (\<exists>t\<in>set cluster. py_split t \<noteq> [])"
proof (cases "\<forall>m\<in>set cluster. \<exists>u. pos_tagged_term_stemming m sep st = Inr u")
  case True
  from centroid_loop_ok [OF True True, of sim None "- 1"]
  have "\<not> (\<exists>e. cluster_centroid sim cluster sep st = Inl e)"
    by (auto simp: cluster_centroid_def)
  moreover have "\<not> (sep = [] \<and> (\<exists>t\<in>set cluster. py_split t \<noteq> []))"
    using True stemming_error [of _ sep st] by (metis sum.distinct(1))
  ultimately show ?thesis by blast
next
  case False
  then obtain t e where t: "t \<in> set cluster" "pos_tagged_term_stemming t sep st = Inl e"
    by (metis sum.exhaust)
  then have rhs: "sep = [] \<and> (\<exists>t\<in>set cluster. py_split t \<noteq> [])"
    using stemming_error [of t sep st] by blast
  obtain x xs where xs: "cluster = x # xs"
    using t(1) by (cases cluster) auto
  have "\<exists>e. centroid_loop sim sep st cluster (x # xs) (None, - 1) = Inl e"
  proof (cases "pos_tagged_term_stemming x sep st")
    case (Inl a)
    then show ?thesis by simp
  next
    case (Inr u)
    from similarity_loop_raises [OF t, of sim u 0] Inr show ?thesis
      by auto
  qed
  then show ?thesis using rhs xs by (simp add: cluster_centroid_def)
qed

lemma centroid_loop_first_max:
  assumes ok: "\<forall>m\<in>set cluster. \<exists>u. pos_tagged_term_stemming m sep st = Inr u"
    and "\<forall>m\<in>set ts. \<exists>u. pos_tagged_term_stemming m sep st = Inr u"
    and "centroid_loop sim sep st cluster ts (c, mx) = Inr r"
  shows "(r = c \<and> (\<forall>t\<in>set ts. average_similarity sim sep st cluster t \<le> mx))
       \<or> (\<exists>i<length ts. r = Some (ts ! i)
            \<and> mx < average_similarity sim sep st cluster (ts ! i)
            \<and> (\<forall>j<i. average_similarity sim sep st cluster (ts ! j)
                      < average_similarity sim sep st cluster (ts ! i))
            \<and> (\<forall>j<length ts. average_similarity sim sep st cluster (ts ! j)
                      \<le> average_similarity sim sep st cluster (ts ! i)))"
  using assms(2,3)
proof (induction ts arbitrary: c mx)
  case Nil
  then show ?case by simp
next
  case (Cons t ts)
  let ?avg = "average_similarity sim sep st cluster"
  from Cons.prems(1) obtain u where u: "pos_tagged_term_stemming t sep st = Inr u"
    by auto
  from Cons.prems(1) have rest: "\<forall>m\<in>set ts. \<exists>u. pos_tagged_term_stemming m sep st = Inr u"
    by simp
  note step = centroid_loop_step [OF u ok, of sim ts c mx]
  show ?case
  proof (cases "mx < ?avg t")
    case True
    with step Cons.prems(2) have run: "centroid_loop sim sep st cluster ts (Some t, ?avg t) = Inr r"
      by (simp only: if_True)
    from Cons.IH [OF rest run] show ?thesis
    proof
      assume a: "r = Some t \<and> (\<forall>x\<in>set ts. ?avg x \<le> ?avg t)"
      have "\<forall>j<length (t # ts). ?avg ((t # ts) ! j) \<le> ?avg t"
        using a by (auto simp: nth_Cons split: nat.splits)
      with a True have "0 < length (t # ts) \<and> r = Some ((t # ts) ! 0)
            \<and> mx < ?avg ((t # ts) ! 0)
            \<and> (\<forall>j<0. ?avg ((t # ts) ! j) < ?avg ((t # ts) ! 0))
            \<and> (\<forall>j<length (t # ts). ?avg ((t # ts) ! j) \<le> ?avg ((t # ts) ! 0))"
        by simp
      then show ?thesis by blast
    next
      assume "\<exists>i<length ts. r = Some (ts ! i) \<and> ?avg t < ?avg (ts ! i)
            \<and> (\<forall>j<i. ?avg (ts ! j) < ?avg (ts ! i))
            \<and> (\<forall>j<length ts. ?avg (ts ! j) \<le> ?avg (ts ! i))"
      then obtain i where i: "i < length ts" "r = Some (ts ! i)" "?avg t < ?avg (ts ! i)"
        "\<forall>j<i. ?avg (ts ! j) < ?avg (ts ! i)" "\<forall>j<length ts. ?avg (ts ! j) \<le> ?avg (ts ! i)"
        by blast
      have "Suc i < length (t # ts) \<and> r = Some ((t # ts) ! Suc i)
            \<and> mx < ?avg ((t # ts) ! Suc i)
            \<and> (\<forall>j<Suc i. ?avg ((t # ts) ! j) < ?avg ((t # ts) ! Suc i))
            \<and> (\<forall>j<length (t # ts). ?avg ((t # ts) ! j) \<le> ?avg ((t # ts) ! Suc i))"
        using i True by (auto simp: nth_Cons less_Suc_eq_0_disj split: nat.splits)
      then show ?thesis by blast
    qed
  next
    case False
    with step Cons.prems(2) have run: "centroid_loop sim sep st cluster ts (c, mx) = Inr r"
      by (simp only: if_False)
    from Cons.IH [OF rest run] show ?thesis
    proof
      assume "r = c \<and> (\<forall>x\<in>set ts. ?avg x \<le> mx)"
      with False show ?thesis by auto
    next
      assume "\<exists>i<length ts. r = Some (ts ! i) \<and> mx < ?avg (ts ! i)
            \<and> (\<forall>j<i. ?avg (ts ! j) < ?avg (ts ! i))
            \<and> (\<forall>j<length ts. ?avg (ts ! j) \<le> ?avg (ts ! i))"
      then obtain i where i: "i < length ts" "r = Some (ts ! i)" "mx < ?avg (ts ! i)"
        "\<forall>j<i. ?avg (ts ! j) < ?avg (ts ! i)" "\<forall>j<length ts. ?avg (ts ! j) \<le> ?avg (ts ! i)"
        by blast
      have "Suc i < length (t # ts) \<and> r = Some ((t # ts) ! Suc i)
            \<and> mx < ?avg ((t # ts) ! Suc i)
            \<and> (\<forall>j<Suc i. ?avg ((t # ts) ! j) < ?avg ((t # ts) ! Suc i))
            \<and> (\<forall>j<length (t # ts). ?avg ((t # ts) ! j) \<le> ?avg ((t # ts) ! Suc i))"
        using i False by (auto simp: nth_Cons less_Suc_eq_0_disj split: nat.splits)
      then show ?thesis by blast
    qed
  qed
qed

lemma average_similarity_nonneg:
  assumes "\<forall>a b v. sim a b = Some v \<longrightarrow> 0 \<le> v"
  shows "0 \<le> average_similarity sim sep st cluster m"
proof -
  have "0 \<le> similarity_or_zero sim a b" for a b
    using assms by (auto simp: similarity_or_zero_def split: option.splits)
  then have "0 \<le> sum_list (map (\<lambda>m'. similarity_or_zero sim (stemmed sep st m) (stemmed sep st m')) cluster)"
    by (intro sum_list_nonneg) auto
  then show ?thesis by (simp add: average_similarity_def)
qed

lemma term_loop_first_positions:
  "fst (term_loop u acc ts (fp, fr)) t =
     (case fp t of
        Some p \<Rightarrow> Some p
      | None \<Rightarrow> (if t \<in> set ts
                 then (case py_find u t of Some pos \<Rightarrow> Some (acc + (pos + 1)) | None \<Rightarrow> None)
                 else None))"
proof (induction ts arbitrary: fp fr)
  case Nil
  then show ?case by (simp split: option.splits)
next
  case (Cons x ts)
  show ?case
  proof (cases "py_find u x")
    case None
    then show ?thesis using Cons.IH [of fp fr]
      by (auto split: option.splits)
  next
    case (Some pos)
    then show ?thesis
      by (auto simp: Let_def Cons.IH split: option.splits)
  qed
qed

lemma term_loop_frequency:
  "snd (term_loop u acc ts (fp, fr)) t =
     (if t \<in> set ts \<and> py_find u t \<noteq> None
      then Some ((case fr t of None \<Rightarrow> 0 | Some n \<Rightarrow> n) + count_list ts t)
      else fr t)"
proof (induction ts arbitrary: fp fr)
  case Nil
  then show ?case by simp
next
  case (Cons x ts)
  show ?case
  proof (cases "py_find u x")
    case None
    then show ?thesis using Cons.IH [of fp fr]
      by auto
  next
    case (Some pos)
    then show ?thesis
      by (auto simp: Let_def Cons.IH count_list_0_iff split: option.splits)
  qed
qed

lemma matching_sentences_Cons:
  "matching_sentences (u # us) t = (if py_find u t \<noteq> None then 1 else 0) + matching_sentences us t"
  by (simp add: matching_sentences_def)

lemma first_match_offset_None:
  "first_match_offset acc us t = None \<longleftrightarrow> matching_sentences us t = 0"
  by (induction us arbitrary: acc) (auto simp: matching_sentences_def split: option.splits)

lemma sentence_loop_Inr:
  assumes "sentence_loop sep cluster ss (acc, fp, fr) = Inr (acc', fp', fr')"
  shows "\<exists>us. untag_cluster sep ss = Inr us
           \<and> acc' = acc + sum_list (map length us)
           \<and> (\<forall>t. fp' t = (case fp t of
                               Some p \<Rightarrow> Some p
                             | None \<Rightarrow> if t \<in> set cluster then first_match_offset acc us t else None))
           \<and> (\<forall>t. fr' t = (if t \<in> set cluster \<and> 0 < matching_sentences us t
                             then Some ((case fr t of None \<Rightarrow> 0 | Some n \<Rightarrow> n)
                                        + count_list cluster t * matching_sentences us t)
                             else fr t))"
  using assms
proof (induction ss arbitrary: acc fp fr)
  case Nil
  then show ?case by (auto simp: matching_sentences_def split: option.splits)
next
  case (Cons s ss)
  from Cons.prems obtain u where u: "untag sep s = Inr u"
    by (cases "untag sep s") auto
  obtain fp1 fr1 where step: "term_loop u acc cluster (fp, fr) = (fp1, fr1)"
    by (cases "term_loop u acc cluster (fp, fr)")
  from Cons.prems u step
  have run: "sentence_loop sep cluster ss (acc + length u, fp1, fr1) = Inr (acc', fp', fr')"
    by simp
  have fp1: "fp1 t = (case fp t of
        Some p \<Rightarrow> Some p
      | None \<Rightarrow> (if t \<in> set cluster
                 then (case py_find u t of Some pos \<Rightarrow> Some (acc + (pos + 1)) | None \<Rightarrow> None)
                 else None))" for t
    using term_loop_first_positions [of u acc cluster fp fr t] by (simp add: step)
  have fr1: "fr1 t = (if t \<in> set cluster \<and> py_find u t \<noteq> None
      then Some ((case fr t of None \<Rightarrow> 0 | Some n \<Rightarrow> n) + count_list cluster t)
      else fr t)" for t
    using term_loop_frequency [of u acc cluster fp fr t] by (simp add: step)
  from Cons.IH [OF run] obtain us where
    us: "untag_cluster sep ss = Inr us"
    and acc': "acc' = acc + length u + sum_list (map length us)"
    and fp': "\<And>t. fp' t = (case fp1 t of
                               Some p \<Rightarrow> Some p
                             | None \<Rightarrow> if t \<in> set cluster
                                       then first_match_offset (acc + length u) us t else None)"
    and fr': "\<And>t. fr' t = (if t \<in> set cluster \<and> 0 < matching_sentences us t
                             then Some ((case fr1 t of None \<Rightarrow> 0 | Some n \<Rightarrow> n)
                                        + count_list cluster t * matching_sentences us t)
                             else fr1 t)"
    by blast
  have "untag_cluster sep (s # ss) = Inr (u # us)"
    by (simp add: u us)
  moreover have "acc' = acc + sum_list (map length (u # us))"
    by (simp add: acc')
  moreover have "fp' t = (case fp t of
                               Some p \<Rightarrow> Some p
                             | None \<Rightarrow> if t \<in> set cluster
                                       then first_match_offset acc (u # us) t else None)" for t
    by (simp add: fp' fp1 split: option.splits)
  moreover have "fr' t = (if t \<in> set cluster \<and> 0 < matching_sentences (u # us) t
                             then Some ((case fr t of None \<Rightarrow> 0 | Some n \<Rightarrow> n)
                                        + count_list cluster t * matching_sentences (u # us) t)
                             else fr t)" for t
    by (simp add: fr' fr1 matching_sentences_Cons algebra_simps split: option.splits)
  ultimately show ?case by blast
qed

lemma sentence_loop_untag:
  "sentence_loop sep cluster ss (acc, fp, fr) = Inl e \<Longrightarrow> \<exists>e'. untag_cluster sep ss = Inl e'"
proof (induction ss arbitrary: acc fp fr)
  case Nil
  then show ?case by simp
next
  case (Cons s ss)
  show ?case
  proof (cases "untag sep s")
    case (Inl a)
    then show ?thesis by simp
  next
    case (Inr u)
    obtain fp1 fr1 where step: "term_loop u acc cluster (fp, fr) = (fp1, fr1)"
      by (cases "term_loop u acc cluster (fp, fr)")
    from Cons.prems Inr step
    have "sentence_loop sep cluster ss (acc + length u, fp1, fr1) = Inl e"
      by simp
    from Cons.IH [OF this] Inr show ?thesis by auto
  qed
qed

lemma sentence_loop_total_untagged:
  assumes "untag_cluster sep ss = Inr us"
  shows "\<exists>acc' fp' fr'. sentence_loop sep cluster ss (acc, fp, fr) = Inr (acc', fp', fr')"
proof (cases "sentence_loop sep cluster ss (acc, fp, fr)")
  case (Inl e)
  from sentence_loop_untag [OF this] assms show ?thesis by simp
next
  case (Inr st)
  then show ?thesis by (cases st) auto
qed

section \<open>The claims\<close>

text \<open>
  Claim C1. Whatever the weights and the clusters argument, the sequence that
  \<open>ordering\<close> returns has non-increasing scores: every entry's score is at least the
  score of the entry after it, in the branch that sorts all weights and in the branch
  that takes one phrase per cluster.
\<close>

theorem ordering_scores_descending:
  assumes "ordering sim self weights clusters = Inr ranked"
    and "Suc i < length ranked"
  shows "snd (ranked ! Suc i) \<le> snd (ranked ! i)"
proof -
  obtain xs where "ranked = py_sorted snd True xs"
    using assms(1) by (auto simp: ordering_def Let_def split: if_splits sum.splits)
  then have "sorted (rev (map snd ranked))"
    by (simp add: py_sorted_descending)
  from sorted_rev_nth_mono [OF this, of i "Suc i"] assms(2) show ?thesis
    by simp
qed

theorem ordering_scores_descending_witness:
  "ordering unbound_similarity (abc_ranker False POSITION) abc_weights [] =
     Inr [(''d'', 3 / 4), (''b'', 1 / 2), (''c'', 1 / 2), (''a'', 1 / 4)]
   \<and> ordering unbound_similarity (abc_ranker True POSITION) abc_weights [] =
     Inr [(''c'', 1 / 2), (''a'', 1 / 4)]
   \<and> snd ([(''d'', 3 / 4), (''b'', 1 / 2), (''c'', 1 / 2), (''a'', 1 / 4 :: real)] ! Suc 2)
       \<le> snd ([(''d'', 3 / 4), (''b'', 1 / 2), (''c'', 1 / 2), (''a'', 1 / 4)] ! 2)
   \<and> snd ([(''c'', 1 / 2), (''a'', 1 / 4 :: real)] ! Suc 0) \<le> snd ([(''c'', 1 / 2), (''a'', 1 / 4)] ! 0)"
proof -
  have flat: "ordering unbound_similarity (abc_ranker False POSITION) abc_weights [] =
      Inr [(''d'', 3 / 4), (''b'', 1 / 2), (''c'', 1 / 2), (''a'', 1 / 4)]"
    by code_simp
  have topic: "ordering unbound_similarity (abc_ranker True POSITION) abc_weights [] =
      Inr [(''c'', 1 / 2), (''a'', 1 / 4)]"
    by code_simp
  show ?thesis
    using flat topic ordering_scores_descending [OF flat, of 2]
      ordering_scores_descending [OF topic, of 0]
    by simp
qed

text \<open>
  Claim C2. With a cluster-aware strategy, what \<open>ordering\<close> returns is a rearrangement
  of one (phrase, score) entry per cluster of the strategy's token grouping: as many
  entries as clusters, the entry of each cluster being the untagged form of one of its
  members, paired with that phrase's weight.
\<close>

theorem ordering_one_entry_per_cluster:
  assumes "is_TopicRankStrategy (textrank_strategy self)"
    and "ordering sim self weights clusters = Inr ranked"
  shows "length ranked = length (token_ids_values (textrank_strategy self))
    \<and> (\<exists>reps. mset ranked = mset reps
           \<and> length reps = length (token_ids_values (textrank_strategy self))
           \<and> (\<forall>i<length (token_ids_values (textrank_strategy self)).
                (\<exists>m\<in>set (token_ids_values (textrank_strategy self) ! i).
                   untag (tag_separator (textrank_strategy self)) m = Inr (fst (reps ! i)))
                \<and> map_of weights (fst (reps ! i)) = Some (snd (reps ! i))))"
proof -
  from assms obtain reps0 where
    loop: "cluster_loop sim self weights (token_ids_values (textrank_strategy self)) [] = Inr reps0"
    and ranked: "ranked = py_sorted snd True reps0"
    by (auto simp: ordering_def Let_def split: sum.splits)
  from cluster_loop_Inr [OF loop] have
    len: "length reps0 = length (token_ids_values (textrank_strategy self))"
    and members: "\<forall>i<length (token_ids_values (textrank_strategy self)).
                (\<exists>m\<in>set (token_ids_values (textrank_strategy self) ! i).
                   untag (tag_separator (textrank_strategy self)) m = Inr (fst (reps0 ! i)))
                \<and> map_of weights (fst (reps0 ! i)) = Some (snd (reps0 ! i))"
    by auto
  have "mset ranked = mset reps0"
    by (simp add: ranked mset_py_sorted)
  moreover have "length ranked = length (token_ids_values (textrank_strategy self))"
    by (simp add: ranked length_py_sorted len)
  ultimately show ?thesis using len members by blast
qed

theorem ordering_one_entry_per_cluster_witness:
  "is_TopicRankStrategy (textrank_strategy (abc_ranker True POSITION))
   \<and> token_ids_values (textrank_strategy (abc_ranker True POSITION)) = [[''a/x'', ''b/y''], [''c/z'']]
   \<and> ordering unbound_similarity (abc_ranker True POSITION) abc_weights [] =
       Inr [(''c'', 1 / 2), (''a'', 1 / 4)]
   \<and> length [(''c'', 1 / 2 :: real), (''a'', 1 / 4)] = length [[''a/x'', ''b/y''], [''c/z'']]
   \<and> (\<exists>reps. mset [(''c'', 1 / 2), (''a'', 1 / 4)] = mset reps
         \<and> length reps = length [[''a/x'', ''b/y''], [''c/z'']]
         \<and> (\<forall>i<length [[''a/x'', ''b/y''], [''c/z'']].
              (\<exists>m\<in>set ([[''a/x'', ''b/y''], [''c/z'']] ! i). untag ''/'' m = Inr (fst (reps ! i)))
              \<and> map_of abc_weights (fst (reps ! i)) = Some (snd (reps ! i))))"
proof -
  have topic: "is_TopicRankStrategy (textrank_strategy (abc_ranker True POSITION))"
    by (simp add: abc_ranker_def abc_strategy_def)
  have ids: "token_ids_values (textrank_strategy (abc_ranker True POSITION)) = [[''a/x'', ''b/y''], [''c/z'']]"
    by (simp add: abc_ranker_def abc_strategy_def)
  have sep: "tag_separator (textrank_strategy (abc_ranker True POSITION)) = ''/''"
    by (simp add: abc_ranker_def abc_strategy_def)
  have out: "ordering unbound_similarity (abc_ranker True POSITION) abc_weights [] =
       Inr [(''c'', 1 / 2), (''a'', 1 / 4)]"
    by code_simp
  show ?thesis
    using topic ids out ordering_one_entry_per_cluster [OF topic out]
    by (simp only: ids sep simp_thms)
qed

text \<open>
  Claim C3. Under the FREQUENCY criterion \<open>cluster_ordering\<close> returns the cluster sorted
  ascending by the key (occurrence count, negated word count): counts never decrease
  along the result, and among equal counts a phrase with more words comes no later than
  one with fewer. So the least frequent phrase comes first: for a cluster of two phrases
  \<open>a\<close> and \<open>b\<close> where \<open>b\<close> has the smaller count (3 and 1 in the example), the result
  starts with \<open>b\<close>.
\<close>

theorem cluster_ordering_frequency_ascending:
  assumes "ordering_criteria self = FREQUENCY"
    and "cluster_ordering sim self cluster = Inr out"
  shows "mset out = mset cluster
    \<and> sorted (map (\<lambda>t. (occurrence_count self cluster t, - word_count t)) out)
    \<and> (\<forall>i j. i < j \<and> j < length out \<longrightarrow>
           occurrence_count self cluster (out ! i) \<le> occurrence_count self cluster (out ! j)
           \<and> (occurrence_count self cluster (out ! i) = occurrence_count self cluster (out ! j) \<longrightarrow>
                word_count (out ! j) \<le> word_count (out ! i)))
    \<and> (\<forall>a b. set cluster = {a, b}
           \<and> occurrence_count self cluster b < occurrence_count self cluster a \<longrightarrow> hd out = b)"
proof -
  have perm: "mset out = mset cluster"
    by (rule cluster_ordering_mset [OF assms(2)])
  have srt: "sorted (map (\<lambda>t. (occurrence_count self cluster t, - word_count t)) out)"
    unfolding occurrence_count_def by (rule cluster_ordering_FREQUENCY(2) [OF assms])
  have pairs: "\<forall>i j. i < j \<and> j < length out \<longrightarrow>
           occurrence_count self cluster (out ! i) \<le> occurrence_count self cluster (out ! j)
           \<and> (occurrence_count self cluster (out ! i) = occurrence_count self cluster (out ! j) \<longrightarrow>
                word_count (out ! j) \<le> word_count (out ! i))"
    using sorted_pair_key_nth [OF srt] by fastforce
  have "hd out = b"
    if ab: "set cluster = {a, b} \<and> occurrence_count self cluster b < occurrence_count self cluster a"
    for a b
  proof -
    have set: "set out = {a, b}"
      using perm ab by (metis set_mset_mset)
    then have "out \<noteq> []" by auto
    then have "hd out \<in> {a, b}" using set by (metis hd_in_set)
    moreover have "occurrence_count self cluster (hd out) \<le> occurrence_count self cluster b"
      using sorted_pair_key_hd [OF srt, of b] set by simp
    ultimately show "hd out = b" using ab by auto
  qed
  with perm srt pairs show ?thesis by blast
qed

theorem cluster_ordering_frequency_ascending_witness:
  "ordering_criteria (abc_ranker True FREQUENCY) = FREQUENCY
   \<and> occurrence_count (abc_ranker True FREQUENCY) [''a'', ''b''] ''a'' = 3
   \<and> occurrence_count (abc_ranker True FREQUENCY) [''a'', ''b''] ''b'' = 1
   \<and> cluster_ordering unbound_similarity (abc_ranker True FREQUENCY) [''a'', ''b''] = Inr [''b'', ''a'']
   \<and> hd [''b'', ''a''] = ''b''
   \<and> sorted (map (\<lambda>t. (occurrence_count (abc_ranker True FREQUENCY) [''a'', ''b''] t, - word_count t))
        [''b'', ''a''])"
proof -
  have crit: "ordering_criteria (abc_ranker True FREQUENCY) = FREQUENCY"
    by (simp add: abc_ranker_def)
  have a: "occurrence_count (abc_ranker True FREQUENCY) [''a'', ''b''] ''a'' = 3"
    by code_simp
  have b: "occurrence_count (abc_ranker True FREQUENCY) [''a'', ''b''] ''b'' = 1"
    by code_simp
  have out: "cluster_ordering unbound_similarity (abc_ranker True FREQUENCY) [''a'', ''b''] = Inr [''b'', ''a'']"
    by code_simp
  show ?thesis
    using crit a b out cluster_ordering_frequency_ascending [OF crit out] by simp
qed

text \<open>
  Claim C4. Under the POSITION criterion \<open>cluster_ordering\<close> returns the cluster sorted
  ascending by the key (first-occurrence offset, negated word count): the first phrase
  of the result has the earliest first occurrence, and of two phrases with the same
  offset the one with more words stands before the one with fewer.
\<close>

theorem cluster_ordering_position_ascending:
  assumes "ordering_criteria self = POSITION"
    and "cluster_ordering sim self cluster = Inr out"
  shows "mset out = mset cluster
    \<and> sorted (map (\<lambda>t. (first_occurrence_offset self cluster t, - word_count t)) out)
    \<and> (\<forall>t\<in>set cluster.
          first_occurrence_offset self cluster (hd out) \<le> first_occurrence_offset self cluster t)
    \<and> (\<forall>i j. i < length out \<and> j < length out
           \<and> first_occurrence_offset self cluster (out ! i) = first_occurrence_offset self cluster (out ! j)
           \<and> word_count (out ! j) < word_count (out ! i) \<longrightarrow> i < j)"
proof -
  have perm: "mset out = mset cluster"
    by (rule cluster_ordering_mset [OF assms(2)])
  have srt: "sorted (map (\<lambda>t. (first_occurrence_offset self cluster t, - word_count t)) out)"
    unfolding first_occurrence_offset_def by (rule cluster_ordering_POSITION(2) [OF assms])
  have set: "set out = set cluster"
    using perm by (metis set_mset_mset)
  have first: "\<forall>t\<in>set cluster.
      first_occurrence_offset self cluster (hd out) \<le> first_occurrence_offset self cluster t"
    using sorted_pair_key_hd [OF srt] set by simp
  have "i < j"
    if h: "i < length out \<and> j < length out
           \<and> first_occurrence_offset self cluster (out ! i) = first_occurrence_offset self cluster (out ! j)
           \<and> word_count (out ! j) < word_count (out ! i)"
    for i j
  proof (rule ccontr)
    assume "\<not> i < j"
    moreover have "i \<noteq> j" using h by auto
    ultimately have "j < i" by simp
    from sorted_pair_key_nth [OF srt this] h show False by simp
  qed
  with perm srt first show ?thesis by blast
qed

theorem cluster_ordering_position_ascending_witness:
  "ordering_criteria (cat_ranker POSITION) = POSITION
   \<and> cluster_ordering shared_words (cat_ranker POSITION) [''the'', ''cat'', ''the cat'']
       = Inr [''the cat'', ''the'', ''cat'']
   \<and> map (first_occurrence_offset (cat_ranker POSITION) [''the'', ''cat'', ''the cat''])
       [''the cat'', ''the'', ''cat''] = [1, 1, 5]
   \<and> map word_count [''the cat'', ''the'', ''cat''] = [2, 1, 1]
   \<and> sorted (map (\<lambda>t. (first_occurrence_offset (cat_ranker POSITION) [''the'', ''cat'', ''the cat''] t,
                 - word_count t)) [''the cat'', ''the'', ''cat''])"
proof -
  have crit: "ordering_criteria (cat_ranker POSITION) = POSITION"
    by (simp add: cat_ranker_def)
  have out: "cluster_ordering shared_words (cat_ranker POSITION) [''the'', ''cat'', ''the cat'']
       = Inr [''the cat'', ''the'', ''cat'']"
    by code_simp
  have offsets: "map (first_occurrence_offset (cat_ranker POSITION) [''the'', ''cat'', ''the cat''])
       [''the cat'', ''the'', ''cat''] = [1, 1, 5]"
    by code_simp
  have words: "map word_count [''the cat'', ''the'', ''cat''] = [2, 1, 1]"
    by code_simp
  show ?thesis
    using crit out offsets words cluster_ordering_position_ascending [OF crit out] by simp
qed

text \<open>
  Claim C5, as the code has it. When the sentences untag without error, the analysis of
  lines 254-275 returns, and: the accumulator ends as the total length of the untagged
  sentences (each length is added after its sentence, whatever matched); a phrase of the
  cluster gets as first position the accumulated length before the first sentence that
  contains it plus the match index plus one, and no later sentence overwrites it; its
  occurrence count is the number of sentences that contain it, once for each time the
  phrase occurs in the cluster list (so exactly that number when it occurs there once);
  and a phrase that no sentence contains has an entry in neither dictionary.
\<close>

theorem position_frequency_analysis:
  assumes "untag_cluster sep sentences = Inr us"
  shows "\<exists>acc first_positions frequency.
           position_frequency sep sentences cluster = Inr (acc, first_positions, frequency)
           \<and> acc = sum_list (map length us)
           \<and> (\<forall>t. first_positions t =
                   (if t \<in> set cluster then first_match_offset 0 us t else None))
           \<and> (\<forall>t. frequency t =
                   (if t \<in> set cluster \<and> 0 < matching_sentences us t
                    then Some (count_list cluster t * matching_sentences us t) else None))
           \<and> (\<forall>t. count_list cluster t = 1 \<and> 0 < matching_sentences us t \<longrightarrow>
                   frequency t = Some (matching_sentences us t))
           \<and> (\<forall>t. matching_sentences us t = 0 \<longrightarrow> first_positions t = None \<and> frequency t = None)"
proof -
  obtain acc first_positions frequency where
    run: "position_frequency sep sentences cluster = Inr (acc, first_positions, frequency)"
    using sentence_loop_total_untagged [OF assms] unfolding position_frequency_def by blast
  from sentence_loop_Inr [OF run [unfolded position_frequency_def]] assms
  have acc: "acc = sum_list (map length us)"
    and fp: "\<And>t. first_positions t =
                   (if t \<in> set cluster then first_match_offset 0 us t else None)"
    and fr: "\<And>t. frequency t =
                   (if t \<in> set cluster \<and> 0 < matching_sentences us t
                    then Some (count_list cluster t * matching_sentences us t) else None)"
    by auto
  have one: "frequency t = Some (matching_sentences us t)"
    if "count_list cluster t = 1 \<and> 0 < matching_sentences us t" for t
  proof -
    from that have "t \<in> set cluster"
      by (metis count_list_0_iff zero_neq_one)
    with that show ?thesis by (simp add: fr)
  qed
  have none: "first_positions t = None \<and> frequency t = None" if "matching_sentences us t = 0" for t
    using that by (simp add: fp fr first_match_offset_None)
  from run acc fp fr one none show ?thesis by blast
qed

theorem position_frequency_analysis_witness:
  "untag_cluster ''/'' [''a/x b/y'', ''a/x c/z'', ''a/x''] = Inr [''a b'', ''a c'', ''a'']
   \<and> first_positions_of ''/'' [''a/x b/y'', ''a/x c/z'', ''a/x''] [''c'', ''a'', ''d''] ''c'' = Some 6
   \<and> first_positions_of ''/'' [''a/x b/y'', ''a/x c/z'', ''a/x''] [''c'', ''a'', ''d''] ''a'' = Some 1
   \<and> frequency_of ''/'' [''a/x b/y'', ''a/x c/z'', ''a/x''] [''c'', ''a'', ''d''] ''c'' = Some 1
   \<and> frequency_of ''/'' [''a/x b/y'', ''a/x c/z'', ''a/x''] [''c'', ''a'', ''d''] ''a'' = Some 3
   \<and> first_positions_of ''/'' [''a/x b/y'', ''a/x c/z'', ''a/x''] [''c'', ''a'', ''d''] ''d'' = None
   \<and> frequency_of ''/'' [''a/x b/y'', ''a/x c/z'', ''a/x''] [''c'', ''a'', ''d''] ''d'' = None"
proof -
  have us: "untag_cluster ''/'' [''a/x b/y'', ''a/x c/z'', ''a/x''] = Inr [''a b'', ''a c'', ''a'']"
    by code_simp
  have c: "first_match_offset 0 [''a b'', ''a c'', ''a''] ''c'' = Some 6"
    "matching_sentences [''a b'', ''a c'', ''a''] ''c'' = 1"
    by code_simp+
  have a: "first_match_offset 0 [''a b'', ''a c'', ''a''] ''a'' = Some 1"
    "matching_sentences [''a b'', ''a c'', ''a''] ''a'' = 3"
    by code_simp+
  have d: "matching_sentences [''a b'', ''a c'', ''a''] ''d'' = 0"
    by code_simp
  from position_frequency_analysis [OF us, of "[''c'', ''a'', ''d'']"] obtain acc fp fr where
    run: "position_frequency ''/'' [''a/x b/y'', ''a/x c/z'', ''a/x''] [''c'', ''a'', ''d'']
            = Inr (acc, fp, fr)"
    and fp: "\<And>t. fp t = (if t \<in> set [''c'', ''a'', ''d'']
                          then first_match_offset 0 [''a b'', ''a c'', ''a''] t else None)"
    and fr: "\<And>t. fr t = (if t \<in> set [''c'', ''a'', ''d'']
                            \<and> 0 < matching_sentences [''a b'', ''a c'', ''a''] t
                          then Some (count_list [''c'', ''a'', ''d''] t
                                     * matching_sentences [''a b'', ''a c'', ''a''] t) else None)"
    and none: "\<And>t. matching_sentences [''a b'', ''a c'', ''a''] t = 0 \<longrightarrow> fp t = None \<and> fr t = None"
    by blast
  have "first_positions_of ''/'' [''a/x b/y'', ''a/x c/z'', ''a/x''] [''c'', ''a'', ''d''] ''c'' = Some 6"
    by (simp add: first_positions_of_def run fp c del: first_match_offset.simps)
  moreover
  have "first_positions_of ''/'' [''a/x b/y'', ''a/x c/z'', ''a/x''] [''c'', ''a'', ''d''] ''a'' = Some 1"
    by (simp add: first_positions_of_def run fp a del: first_match_offset.simps)
  moreover
  have "frequency_of ''/'' [''a/x b/y'', ''a/x c/z'', ''a/x''] [''c'', ''a'', ''d''] ''c'' = Some 1"
    by (simp add: frequency_of_def run fr c)
  moreover
  have "frequency_of ''/'' [''a/x b/y'', ''a/x c/z'', ''a/x''] [''c'', ''a'', ''d''] ''a'' = Some 3"
    by (simp add: frequency_of_def run fr a)
  moreover
  have "first_positions_of ''/'' [''a/x b/y'', ''a/x c/z'', ''a/x''] [''c'', ''a'', ''d''] ''d'' = None"
    using none [of "''d''"] by (simp add: first_positions_of_def run d)
  moreover
  have "frequency_of ''/'' [''a/x b/y'', ''a/x c/z'', ''a/x''] [''c'', ''a'', ''d''] ''d'' = None"
    using none [of "''d''"] by (simp add: frequency_of_def run d)
  ultimately show ?thesis using us by blast
qed

text \<open>
  Claim C5 as stated, that each sentence containing the phrase adds exactly 1 to its
  count, fails when the cluster lists a phrase twice, as the untagged form of the
  cluster \<open>a/x\<close>, \<open>a/y\<close> does: the single sentence \<open>a b\<close> contains \<open>a\<close> and the count
  of \<open>a\<close> is 2.
\<close>

theorem position_frequency_duplicate_member_counterexample:
  "untag_cluster ''/'' [''a/x'', ''a/y''] = Inr [''a'', ''a'']
   \<and> untag_cluster ''/'' [''a/x b/y''] = Inr [''a b'']
   \<and> py_find ''a b'' ''a'' = Some 0
   \<and> matching_sentences [''a b''] ''a'' = 1
   \<and> frequency_of ''/'' [''a/x b/y''] [''a'', ''a''] ''a'' = Some 2
   \<and> frequency_of ''/'' [''a/x b/y''] [''a'', ''a''] ''a'' \<noteq> Some (matching_sentences [''a b''] ''a'')"
  by code_simp

text \<open>
  Claim C6. For a similarity that is never negative (an overlap count) and a non-empty
  tag separator, \<open>cluster_centroid\<close> returns no member for the empty cluster, the single
  member of a cluster of size one, and otherwise the first member, in list order, whose
  average similarity to all members (itself included, divided by the size of the
  cluster) is greatest: no member has a greater average and every earlier member has a
  strictly smaller one, so a later member with an equal average does not replace it.
\<close>

theorem cluster_centroid_first_maximum:
  assumes "sep \<noteq> []"
    and "\<forall>a b v. sim a b = Some v \<longrightarrow> 0 \<le> v"
  shows "cluster_centroid sim [] sep st = Inr None
    \<and> cluster_centroid sim [m] sep st = Inr (Some m)
    \<and> (cluster \<noteq> [] \<longrightarrow>
         (\<exists>i<length cluster. cluster_centroid sim cluster sep st = Inr (Some (cluster ! i))
            \<and> (\<forall>j<length cluster. average_similarity sim sep st cluster (cluster ! j)
                                    \<le> average_similarity sim sep st cluster (cluster ! i))
            \<and> (\<forall>j<i. average_similarity sim sep st cluster (cluster ! j)
                                    < average_similarity sim sep st cluster (cluster ! i))))"
proof -
  have general: "\<exists>i<length c. cluster_centroid sim c sep st = Inr (Some (c ! i))
            \<and> (\<forall>j<length c. average_similarity sim sep st c (c ! j)
                                    \<le> average_similarity sim sep st c (c ! i))
            \<and> (\<forall>j<i. average_similarity sim sep st c (c ! j)
                                    < average_similarity sim sep st c (c ! i))"
    if ne: "c \<noteq> []" for c
  proof -
    have ok: "\<forall>m\<in>set c. \<exists>u. pos_tagged_term_stemming m sep st = Inr u"
      using stemming_total [OF assms(1)] by blast
    obtain r where r: "centroid_loop sim sep st c c (None, - 1) = Inr r"
      using centroid_loop_ok [OF ok ok] by blast
    obtain x where "x \<in> set c"
      using ne by (cases c) auto
    moreover have "- 1 < average_similarity sim sep st c x"
      using average_similarity_nonneg [OF assms(2), of sep st c x] by simp
    ultimately have "\<not> (\<forall>t\<in>set c. average_similarity sim sep st c t \<le> - 1)"
      by (metis not_le)
    with centroid_loop_first_max [OF ok ok r] r show ?thesis
      unfolding cluster_centroid_def by blast
  qed
  have "cluster_centroid sim [] sep st = Inr None"
    by (simp add: cluster_centroid_def)
  moreover have "cluster_centroid sim [m] sep st = Inr (Some m)"
    using general [of "[m]"] by simp
  ultimately show ?thesis using general [of cluster] by blast
qed

theorem cluster_centroid_first_maximum_witness:
  "''/'' \<noteq> []
   \<and> shared_words ''deep learning'' ''machine learning'' = Some 1
   \<and> map (average_similarity shared_words ''/'' (\<lambda>w. w)
            [''machine/fk learning/fk'', ''learning/fk machine/fk'', ''deep/fk learning/fk''])
        [''machine/fk learning/fk'', ''learning/fk machine/fk'', ''deep/fk learning/fk'']
       = [5 / 3, 5 / 3, 4 / 3]
   \<and> cluster_centroid shared_words
        [''machine/fk learning/fk'', ''learning/fk machine/fk'', ''deep/fk learning/fk''] ''/'' (\<lambda>w. w)
       = Inr (Some ''machine/fk learning/fk'')
   \<and> cluster_centroid shared_words [] ''/'' (\<lambda>w. w) = Inr None
   \<and> cluster_centroid shared_words [''deep/fk learning/fk''] ''/'' (\<lambda>w. w)
       = Inr (Some ''deep/fk learning/fk'')"
proof -
  have sep: "''/'' \<noteq> []"
    by simp
  have nonneg: "\<forall>a b v. shared_words a b = Some v \<longrightarrow> 0 \<le> v"
    by (simp add: shared_words_def)
  have averages: "map (average_similarity shared_words ''/'' (\<lambda>w. w)
            [''machine/fk learning/fk'', ''learning/fk machine/fk'', ''deep/fk learning/fk''])
        [''machine/fk learning/fk'', ''learning/fk machine/fk'', ''deep/fk learning/fk'']
       = [5 / 3, 5 / 3, 4 / 3]"
    by code_simp
  have centroid: "cluster_centroid shared_words
        [''machine/fk learning/fk'', ''learning/fk machine/fk'', ''deep/fk learning/fk''] ''/'' (\<lambda>w. w)
       = Inr (Some ''machine/fk learning/fk'')"
    by code_simp
  have shared: "shared_words ''deep learning'' ''machine learning'' = Some 1"
    by code_simp
  show ?thesis
    using sep shared averages centroid
      cluster_centroid_first_maximum [OF sep nonneg, of "\<lambda>w. w" "''deep/fk learning/fk''" "[]"]
    by blast
qed

text \<open>
  Claim C7. When a member of the cluster has no entry in \<open>first_positions\<close> under
  POSITION, or none in \<open>frequency\<close> under FREQUENCY, \<open>cluster_ordering\<close> raises: it
  never returns a list, so no default offset or count is ever used. With a non-empty
  tag separator the exception is the KeyError of the failed lookup.
\<close>

theorem cluster_ordering_missing_entry:
  assumes "t \<in> set cluster"
    and "ordering_criteria self = POSITION
           \<and> first_positions_of (tag_separator (textrank_strategy self))
               (context_sentences (textrank_strategy self)) cluster t = None
         \<or> ordering_criteria self = FREQUENCY
           \<and> frequency_of (tag_separator (textrank_strategy self))
               (context_sentences (textrank_strategy self)) cluster t = None"
  shows "(\<exists>e. cluster_ordering sim self cluster = Inl e)
         \<and> (tag_separator (textrank_strategy self) \<noteq> [] \<longrightarrow>
              cluster_ordering sim self cluster = Inl KeyError)"
proof -
  obtain r where r: "cluster_ordering sim self cluster = r"
    by simp
  then have "(\<exists>e. r = Inl e) \<and> (tag_separator (textrank_strategy self) \<noteq> [] \<longrightarrow> r = Inl KeyError)"
  proof (cases rule: cluster_ordering_cases)
    case (centroid_raises e)
    with cluster_centroid_total [of "tag_separator (textrank_strategy self)"] show ?thesis
      by (metis sum.distinct(1))
  next
    case (analysis_raises tc e)
    with position_frequency_total [of "tag_separator (textrank_strategy self)"] show ?thesis
      by (metis sum.distinct(1))
  next
    case (sorts tc acc fp fr)
    have fp: "first_positions_of (tag_separator (textrank_strategy self))
             (context_sentences (textrank_strategy self)) cluster t = fp t"
      by (simp add: first_positions_of_def sorts(2))
    have fr: "frequency_of (tag_separator (textrank_strategy self))
             (context_sentences (textrank_strategy self)) cluster t = fr t"
      by (simp add: frequency_of_def sorts(2))
    from assms(2) show ?thesis
    proof
      assume a: "ordering_criteria self = POSITION
           \<and> first_positions_of (tag_separator (textrank_strategy self))
               (context_sentences (textrank_strategy self)) cluster t = None"
      then have "position_key fp t = None"
        by (simp add: fp position_key_None)
      from py_sorted_lookup_KeyError [of t cluster "position_key fp", OF assms(1) this] sorts(3) a
      show ?thesis by simp
    next
      assume a: "ordering_criteria self = FREQUENCY
           \<and> frequency_of (tag_separator (textrank_strategy self))
               (context_sentences (textrank_strategy self)) cluster t = None"
      then have "frequency_key fr t = None"
        by (simp add: fr frequency_key_None)
      from py_sorted_lookup_KeyError [of t cluster "frequency_key fr", OF assms(1) this] sorts(3) a
      show ?thesis by simp
    qed
  qed
  with r show ?thesis by simp
qed

theorem cluster_ordering_missing_entry_witness:
  "''bird'' \<in> set [''the'', ''bird'']
   \<and> first_positions_of ''/'' (context_sentences cat_strategy) [''the'', ''bird''] ''bird'' = None
   \<and> frequency_of ''/'' (context_sentences cat_strategy) [''the'', ''bird''] ''bird'' = None
   \<and> cluster_ordering shared_words (cat_ranker POSITION) [''the'', ''bird''] = Inl KeyError
   \<and> cluster_ordering shared_words (cat_ranker FREQUENCY) [''the'', ''bird''] = Inl KeyError"
proof -
  have mem: "''bird'' \<in> set [''the'', ''bird'']"
    by simp
  have sep: "tag_separator (textrank_strategy (cat_ranker c)) = ''/''" for c
    by (simp add: cat_ranker_def cat_strategy_def)
  have ctx: "context_sentences (textrank_strategy (cat_ranker c)) = context_sentences cat_strategy" for c
    by (simp add: cat_ranker_def)
  have crit: "ordering_criteria (cat_ranker c) = c" for c
    by (simp add: cat_ranker_def)
  have pos: "first_positions_of ''/'' (context_sentences cat_strategy) [''the'', ''bird''] ''bird'' = None"
    by code_simp
  have freq: "frequency_of ''/'' (context_sentences cat_strategy) [''the'', ''bird''] ''bird'' = None"
    by code_simp
  show ?thesis
    using mem pos freq
      cluster_ordering_missing_entry [OF mem, of "cat_ranker POSITION" shared_words]
      cluster_ordering_missing_entry [OF mem, of "cat_ranker FREQUENCY" shared_words]
    by (simp add: sep ctx crit)
qed

text \<open>
  Claim C8. In \<open>cluster_centroid\<close> a similarity computation that fails adds exactly 0
  to the member's sum and the scan goes on: the outcome is the one obtained from the
  similarity that returns 0 wherever the given one fails, the inner loop returns the
  sum of these contributions, and whether \<open>cluster_centroid\<close> raises does not depend on
  the similarity at all (it raises only on the empty tag separator).
\<close>

theorem cluster_centroid_failed_similarity_counts_zero:
  "cluster_centroid sim cluster sep st =
     cluster_centroid (\<lambda>stem1 stem2. Some (similarity_or_zero sim stem1 stem2)) cluster sep st
   \<and> ((\<exists>e. cluster_centroid sim cluster sep st = Inl e) \<longleftrightarrow>
        sep = [] \<and> (\<exists>t\<in>set cluster. py_split t \<noteq> []))
   \<and> (sep \<noteq> [] \<longrightarrow>
        similarity_loop sim sep st stem1 cluster s =
          Inr (s + sum_list (map (\<lambda>t. similarity_or_zero sim stem1 (stemmed sep st t)) cluster)))"
proof (intro conjI impI)
  show "cluster_centroid sim cluster sep st =
     cluster_centroid (\<lambda>stem1 stem2. Some (similarity_or_zero sim stem1 stem2)) cluster sep st"
    unfolding cluster_centroid_def by (rule centroid_loop_zero_for_failure)
  show "(\<exists>e. cluster_centroid sim cluster sep st = Inl e) \<longleftrightarrow>
        sep = [] \<and> (\<exists>t\<in>set cluster. py_split t \<noteq> [])"
    by (rule cluster_centroid_raises_iff)
  assume "sep \<noteq> []"
  then have "\<forall>t\<in>set cluster. \<exists>u. pos_tagged_term_stemming t sep st = Inr u"
    using stemming_total by blast
  then show "similarity_loop sim sep st stem1 cluster s =
          Inr (s + sum_list (map (\<lambda>t. similarity_or_zero sim stem1 (stemmed sep st t)) cluster))"
    by (rule similarity_loop_sum)
qed

theorem cluster_centroid_failed_similarity_counts_zero_witness:
  "partial_shared_words ''a'' '''' = None
   \<and> similarity_or_zero partial_shared_words ''a'' '''' = 0
   \<and> similarity_loop partial_shared_words ''/'' (\<lambda>w. w) ''a'' [''a/fk'', '''', ''a/fk b/fk''] 0 = Inr 2
   \<and> cluster_centroid partial_shared_words [''a/fk'', '''', ''a/fk b/fk''] ''/'' (\<lambda>w. w)
       = Inr (Some ''a/fk b/fk'')
   \<and> \<not> (\<exists>e. cluster_centroid partial_shared_words [''a/fk'', '''', ''a/fk b/fk''] ''/'' (\<lambda>w. w) = Inl e)"
proof -
  have sep: "''/'' \<noteq> []"
    by simp
  have fails: "partial_shared_words ''a'' '''' = None"
    by code_simp
  have zero: "similarity_or_zero partial_shared_words ''a'' '''' = 0"
    by (simp add: similarity_or_zero_def fails)
  have total: "0 + sum_list (map (\<lambda>t. similarity_or_zero partial_shared_words ''a''
        (stemmed ''/'' (\<lambda>w. w) t)) [''a/fk'', '''', ''a/fk b/fk'']) = (2 :: real)"
    by code_simp
  have centroid: "cluster_centroid partial_shared_words [''a/fk'', '''', ''a/fk b/fk''] ''/'' (\<lambda>w. w)
       = Inr (Some ''a/fk b/fk'')"
    by code_simp
  note inst = cluster_centroid_failed_similarity_counts_zero
    [of partial_shared_words "[''a/fk'', '''', ''a/fk b/fk'']" "''/''" "\<lambda>w. w" "''a''" 0]
  from inst sep have "similarity_loop partial_shared_words ''/'' (\<lambda>w. w) ''a''
      [''a/fk'', '''', ''a/fk b/fk''] 0 = Inr 2"
    by (simp only: total simp_thms)
  moreover from inst [THEN conjunct2, THEN conjunct1] sep
  have "\<not> (\<exists>e. cluster_centroid partial_shared_words [''a/fk'', '''', ''a/fk b/fk''] ''/'' (\<lambda>w. w) = Inl e)"
    by blast
  ultimately show ?thesis using fails zero centroid by blast
qed

text \<open>
  Claim C9. With a cluster-aware strategy the result of \<open>ordering\<close> does not depend on
  its clusters argument: the argument is replaced by the strategy's token grouping
  before it is read, so any two arguments give the same outcome.
\<close>

theorem ordering_ignores_clusters_argument:
  assumes "is_TopicRankStrategy (textrank_strategy self)"
  shows "ordering sim self weights clusters1 = ordering sim self weights clusters2"
  using assms by (simp add: ordering_def)

theorem ordering_ignores_clusters_argument_witness:
  "is_TopicRankStrategy (textrank_strategy (abc_ranker True POSITION))
   \<and> ordering unbound_similarity (abc_ranker True POSITION) abc_weights [[''d/x'']] =
     ordering unbound_similarity (abc_ranker True POSITION) abc_weights [[''a/x''], [''b/y'', ''c/z'']]"
proof -
  have topic: "is_TopicRankStrategy (textrank_strategy (abc_ranker True POSITION))"
    by (simp add: abc_ranker_def abc_strategy_def)
  show ?thesis
    using topic ordering_ignores_clusters_argument [OF topic] by simp
qed

text \<open>
  Claim C10. With a non-empty tag separator (the only source of ValueError), and with
  an entry recorded for every member in the dictionary that the active criterion reads
  (\<open>first_positions\<close> under POSITION, \<open>frequency\<close> under FREQUENCY, none under
  CENTROID), \<open>cluster_ordering\<close> returns, and what it returns is a permutation of its
  input: the same length and the same multiset of phrases. This holds for every input
  cluster, the empty one included.
\<close>

theorem cluster_ordering_permutation:
  assumes "tag_separator (textrank_strategy self) \<noteq> []"
    and "ordering_criteria self = POSITION \<Longrightarrow>
           \<forall>t\<in>set cluster. first_positions_of (tag_separator (textrank_strategy self))
             (context_sentences (textrank_strategy self)) cluster t \<noteq> None"
    and "ordering_criteria self = FREQUENCY \<Longrightarrow>
           \<forall>t\<in>set cluster. frequency_of (tag_separator (textrank_strategy self))
             (context_sentences (textrank_strategy self)) cluster t \<noteq> None"
  shows "\<exists>out. cluster_ordering sim self cluster = Inr out
           \<and> length out = length cluster \<and> mset out = mset cluster"
proof -
  obtain r where r: "cluster_ordering sim self cluster = r"
    by simp
  then have "\<exists>out. r = Inr out"
  proof (cases rule: cluster_ordering_cases)
    case (centroid_raises e)
    with cluster_centroid_total [OF assms(1)] show ?thesis
      by (metis sum.distinct(1))
  next
    case (analysis_raises tc e)
    with position_frequency_total [OF assms(1)] show ?thesis
      by (metis sum.distinct(1))
  next
    case (sorts tc acc fp fr)
    have fp: "first_positions_of (tag_separator (textrank_strategy self))
             (context_sentences (textrank_strategy self)) cluster t = fp t" for t
      by (simp add: first_positions_of_def sorts(2))
    have fr: "frequency_of (tag_separator (textrank_strategy self))
             (context_sentences (textrank_strategy self)) cluster t = fr t" for t
      by (simp add: frequency_of_def sorts(2))
    show ?thesis
    proof (cases "ordering_criteria self")
      case POSITION
      with assms(2) have "\<forall>t\<in>set cluster. position_key fp t \<noteq> None"
        by (simp add: fp position_key_None)
      from py_sorted_lookup_total [OF this] sorts(3) POSITION show ?thesis
        by simp
    next
      case FREQUENCY
      with assms(3) have "\<forall>t\<in>set cluster. frequency_key fr t \<noteq> None"
        by (simp add: fr frequency_key_None)
      from py_sorted_lookup_total [OF this] sorts(3) FREQUENCY show ?thesis
        by simp
    next
      case CENTROID
      with sorts(3) show ?thesis by simp
    qed
  qed
  then obtain out where out: "cluster_ordering sim self cluster = Inr out"
    using r by blast
  have "mset out = mset cluster"
    by (rule cluster_ordering_mset [OF out])
  moreover from this have "length out = length cluster"
    by (rule mset_eq_length)
  ultimately show ?thesis using out by blast
qed

theorem cluster_ordering_permutation_witness:
  "(\<exists>out. cluster_ordering shared_words (cat_ranker POSITION) [''the'', ''cat'', ''the cat''] = Inr out
      \<and> length out = length [''the'', ''cat'', ''the cat'']
      \<and> mset out = mset [''the'', ''cat'', ''the cat''])
   \<and> (\<exists>out. cluster_ordering shared_words (cat_ranker FREQUENCY) [''the'', ''cat'', ''the cat''] = Inr out
      \<and> length out = length [''the'', ''cat'', ''the cat'']
      \<and> mset out = mset [''the'', ''cat'', ''the cat''])
   \<and> (\<exists>out. cluster_ordering shared_words (cat_ranker CENTROID) [''the'', ''bird''] = Inr out
      \<and> length out = length [''the'', ''bird'']
      \<and> mset out = mset [''the'', ''bird''])"
proof -
  have sep: "tag_separator (textrank_strategy (cat_ranker c)) \<noteq> []" for c
    by (simp add: cat_ranker_def cat_strategy_def)
  have crit: "ordering_criteria (cat_ranker c) = c" for c
    by (simp add: cat_ranker_def)
  have pos: "\<forall>t\<in>set [''the'', ''cat'', ''the cat''].
      first_positions_of (tag_separator (textrank_strategy (cat_ranker POSITION)))
        (context_sentences (textrank_strategy (cat_ranker POSITION))) [''the'', ''cat'', ''the cat''] t \<noteq> None"
    by code_simp
  have freq: "\<forall>t\<in>set [''the'', ''cat'', ''the cat''].
      frequency_of (tag_separator (textrank_strategy (cat_ranker FREQUENCY)))
        (context_sentences (textrank_strategy (cat_ranker FREQUENCY))) [''the'', ''cat'', ''the cat''] t \<noteq> None"
    by code_simp
  show ?thesis
    using cluster_ordering_permutation [OF sep [of POSITION], of "[''the'', ''cat'', ''the cat'']" shared_words]
      cluster_ordering_permutation [OF sep [of FREQUENCY], of "[''the'', ''cat'', ''the cat'']" shared_words]
      cluster_ordering_permutation [OF sep [of CENTROID], of "[''the'', ''bird'']" shared_words]
      pos freq
    by (simp only: crit ORDERING_CRITERIA.distinct simp_thms)
qed

end
